theory Spec2Isabelle
  imports Main "HOL-Library.Char_ord" "HOL-Library.List_Lexorder" "HOL-Library.Product_Lexorder"
begin

section \<open>The Verific front end of Yosys (frontends/verific/verific.cc)\<close>

text \<open>
  The front end reads an elaborated design, a pointer graph of netlists, nets and instances
  owned by the Verific library, and builds RTLIL modules from it. The embedding below
  keeps the two sides apart: the source graph is a store indexed by pointers (natural
  numbers, with \<open>None\<close> for the null pointer), the RTLIL side is a record of the wires,
  cells and connections of the module under construction. Every \<open>log_error\<close>,
  \<open>log_cmd_error\<close>, \<open>log_assert\<close>, \<open>log_abort\<close>, thrown \<open>std::out_of_range\<close>
  and null dereference of the source is a value of \<open>error\<close>, returned on the left of a sum.
\<close>

subsection \<open>Errors\<close>

datatype error =
    ExternalReference
  | MapOutOfRange
  | AssertionFailed
  | Abort
  | NullDereference
  | UninitializedRead
  | DivisionByZero
  | Redefinition string
  | UnsupportedConcatRange
  | UnsupportedRepeatRange
  | UnsupportedSvaPrimitive string
  | UnsupportedRamInstance string
  | AsymmetricMemory string string

subsection \<open>The source graph\<close>

text \<open>
  Verific's primitive kinds are the constants of an \<open>enum\<close> of Verific's \<open>Netlist.h\<close>;
  their numbers are not part of this file, so a kind is modelled by the name of its constant.
\<close>

type_synonym prim = string
type_synonym net_ptr = nat
type_synonym inst_ptr = nat
type_synonym netlist_ptr = nat

record Net =
  net_Name :: string
  net_Owner :: netlist_ptr
  net_Drivers :: "inst_ptr list"
  net_IsGnd :: bool
  net_IsPwr :: bool
  net_IsRamNet :: bool
  net_Size :: nat
  net_PortRefs :: "inst_ptr list"
  net_Ports :: "string list"

record Instance =
  inst_Type :: prim
  inst_Name :: string
  inst_Owner :: netlist_ptr
  inst_View :: netlist_ptr
  inst_IsUserDeclared :: bool
  inst_Input :: "net_ptr option"
  inst_Input1 :: "net_ptr option"
  inst_Input2 :: "net_ptr option"
  inst_Control :: "net_ptr option"
  inst_Clock :: "net_ptr option"
  inst_Set :: "net_ptr option"
  inst_Reset :: "net_ptr option"
  inst_Output :: "net_ptr option"
  inst_Cin :: "net_ptr option"
  inst_Cout :: "net_ptr option"
  inst_InputBits :: "net_ptr option list"
  inst_Input1Bits :: "net_ptr option list"
  inst_Input2Bits :: "net_ptr option list"
  inst_OutputBits :: "net_ptr option list"
  inst_Atts :: "(string \<times> string) list"
  inst_PortRefs :: "(string \<times> net_ptr) list"

text \<open>
  A netlist: the name of its owner (the cell it implements), the instances that refer to
  it (\<open>NumOfRefs\<close> is their number, \<open>GetReferences()->GetLast()\<close> the last), its own
  instances, ports and nets.
\<close>

record Netlist =
  nl_OwnerName :: string
  nl_IsOperator :: bool
  nl_IsBlackBox :: bool
  nl_References :: "inst_ptr list"
  nl_Instances :: "inst_ptr list"
  nl_Ports :: "string list"
  nl_Nets :: "net_ptr list"

record database =
  db_nets :: "net_ptr \<Rightarrow> Net"
  db_insts :: "inst_ptr \<Rightarrow> Instance"
  db_netlists :: "netlist_ptr \<Rightarrow> Netlist"

text \<open>
  \<open>Net::Driver()\<close>, \<open>Net::IsMultipleDriven()\<close> and \<open>Net::IsExternalTo(nl)\<close> belong
  to Verific. A net lists the instances that drive it: \<open>Driver\<close> is the first of them
  or null, a net is multiply driven when it has more than one, and it is external to a
  netlist other than its owner.
\<close>

definition Driver :: "Net \<Rightarrow> inst_ptr option" where
  "Driver n = (case net_Drivers n of [] \<Rightarrow> None | i # _ \<Rightarrow> Some i)"

definition IsMultipleDriven :: "Net \<Rightarrow> bool" where
  "IsMultipleDriven n = (1 < length (net_Drivers n))"

definition IsExternalTo :: "Net \<Rightarrow> netlist_ptr \<Rightarrow> bool" where
  "IsExternalTo n nl = (net_Owner n \<noteq> nl)"

definition InputSize :: "Instance \<Rightarrow> nat" where
  "InputSize i = length (inst_InputBits i)"

definition Input1Size :: "Instance \<Rightarrow> nat" where
  "Input1Size i = length (inst_Input1Bits i)"



definition GetInputBit :: "Instance \<Rightarrow> nat \<Rightarrow> net_ptr option" where
  "GetInputBit i k = (if k < length (inst_InputBits i) then inst_InputBits i ! k else None)"

fun GetAttValue :: "(string \<times> string) list \<Rightarrow> string \<Rightarrow> string option" where
  "GetAttValue [] key = None"
| "GetAttValue ((k, v) # atts) key = (if k = key then Some v else GetAttValue atts key)"

subsection \<open>RTLIL signals\<close>

datatype state = S0 | S1 | Sx | Sz

text \<open>
  An \<open>IdString\<close> is either a name taken from the design or made by \<open>NEW_ID\<close>, which
  numbers its names with the global counter \<open>autoidx\<close>
  (\<open>$auto$<file>:<line>:<function>$<autoidx>\<close>).
\<close>

datatype idstring = Id string | AutoId nat

datatype sigbit = SigConst state | SigWire idstring nat

type_synonym sigspec = "sigbit list"


subsection \<open>RTLIL modules\<close>

datatype rconst = Const_bits "state list" | Const_int int | Const_str string

record wire =
  wire_name :: idstring
  wire_width :: nat
  wire_attributes :: "(string \<times> rconst) list"

record cell =
  cell_name :: idstring
  cell_type :: string
  cell_parameters :: "(string \<times> rconst) list"
  cell_ports :: "(string \<times> sigspec) list"

record memory =
  mem_name :: string
  mem_width :: int
  mem_size :: int

record rmodule =
  mod_wires :: "wire list"
  mod_cells :: "cell list"
  mod_memories :: "(idstring \<times> memory) list"
  mod_conns :: "(sigspec \<times> sigspec) list"
  mod_autoidx :: nat

text \<open>
  Modelled from the spec: the builder interface of \<open>RTLIL::Module\<close> (kernel/rtlil.cc and
  kernel/rtlil.h, not under src/). The spec's data model makes a module a flat namespace of
  wires, cells and connections, a cell an instance of a fixed-function primitive with named
  port connections and typed parameters, and a signal an ordered sequence of bits. Each
  \<open>add...\<close> call appends one cell of the named primitive with the ports and parameters
  it is given; \<open>And\<close> and \<open>Mux\<close> also make the wire of their result and return it. They
  are called here with one-bit operands, so that wire has one bit.
\<close>

definition pub :: "string \<Rightarrow> string" where
  "pub name = CHR 0x5C # name"

definition NEW_ID :: "rmodule \<Rightarrow> idstring \<times> rmodule" where
  "NEW_ID m = (AutoId (mod_autoidx m), m\<lparr>mod_autoidx := mod_autoidx m + 1\<rparr>)"

definition SigSpec_of_wire :: "idstring \<Rightarrow> nat \<Rightarrow> sigspec" where
  "SigSpec_of_wire name width = map (SigWire name) [0..<width]"

definition addWire :: "rmodule \<Rightarrow> idstring \<Rightarrow> nat \<Rightarrow> rmodule" where
  "addWire m name width =
     m\<lparr>mod_wires := mod_wires m @ [\<lparr>wire_name = name, wire_width = width, wire_attributes = []\<rparr>]\<rparr>"

fun set_attribute :: "(string \<times> rconst) list \<Rightarrow> string \<Rightarrow> rconst \<Rightarrow> (string \<times> rconst) list" where
  "set_attribute [] key v = [(key, v)]"
| "set_attribute ((k, w) # atts) key v =
     (if k = key then (k, v) # atts else (k, w) # set_attribute atts key v)"

definition wire_set_attribute :: "rmodule \<Rightarrow> idstring \<Rightarrow> string \<Rightarrow> rconst \<Rightarrow> rmodule" where
  "wire_set_attribute m name key v =
     m\<lparr>mod_wires := map (\<lambda>w. if wire_name w = name
                                then w\<lparr>wire_attributes := set_attribute (wire_attributes w) key v\<rparr>
                                else w) (mod_wires m)\<rparr>"

definition addCell :: "rmodule \<Rightarrow> cell \<Rightarrow> rmodule" where
  "addCell m c = m\<lparr>mod_cells := mod_cells m @ [c]\<rparr>"

definition Const_bool :: "bool \<Rightarrow> rconst" where
  "Const_bool b = Const_bits [if b then S1 else S0]"

definition addDff :: "rmodule \<Rightarrow> idstring \<Rightarrow> sigspec \<Rightarrow> sigspec \<Rightarrow> sigspec \<Rightarrow> bool \<Rightarrow> rmodule" where
  "addDff m name sig_clk sig_d sig_q clk_polarity =
     addCell m \<lparr>cell_name = name, cell_type = ''$dff'',
       cell_parameters = [(pub ''CLK_POLARITY'', Const_bool clk_polarity),
                          (pub ''WIDTH'', Const_int (int (length sig_q)))],
       cell_ports = [(pub ''CLK'', sig_clk), (pub ''D'', sig_d), (pub ''Q'', sig_q)]\<rparr>"

definition addAnd :: "rmodule \<Rightarrow> idstring \<Rightarrow> sigspec \<Rightarrow> sigspec \<Rightarrow> sigspec \<Rightarrow> rmodule" where
  "addAnd m name sig_a sig_b sig_y =
     addCell m \<lparr>cell_name = name, cell_type = ''$and'',
       cell_parameters = [(pub ''A_SIGNED'', Const_bool False), (pub ''B_SIGNED'', Const_bool False),
                          (pub ''A_WIDTH'', Const_int (int (length sig_a))),
                          (pub ''B_WIDTH'', Const_int (int (length sig_b))),
                          (pub ''Y_WIDTH'', Const_int (int (length sig_y)))],
       cell_ports = [(pub ''A'', sig_a), (pub ''B'', sig_b), (pub ''Y'', sig_y)]\<rparr>"

definition addMux ::
  "rmodule \<Rightarrow> idstring \<Rightarrow> sigspec \<Rightarrow> sigspec \<Rightarrow> sigspec \<Rightarrow> sigspec \<Rightarrow> rmodule" where
  "addMux m name sig_a sig_b sig_s sig_y =
     addCell m \<lparr>cell_name = name, cell_type = ''$mux'',
       cell_parameters = [(pub ''WIDTH'', Const_int (int (length sig_a)))],
       cell_ports = [(pub ''A'', sig_a), (pub ''B'', sig_b), (pub ''S'', sig_s), (pub ''Y'', sig_y)]\<rparr>"

definition module_And :: "rmodule \<Rightarrow> idstring \<Rightarrow> sigbit \<Rightarrow> sigbit \<Rightarrow> sigbit \<times> rmodule" where
  "module_And m name sig_a sig_b =
     (let (y, m1) = NEW_ID m;
          m2 = addWire m1 y 1;
          m3 = addAnd m2 name [sig_a] [sig_b] [SigWire y 0]
      in (SigWire y 0, m3))"

definition module_Mux ::
  "rmodule \<Rightarrow> idstring \<Rightarrow> sigbit \<Rightarrow> sigbit \<Rightarrow> sigbit \<Rightarrow> sigbit \<times> rmodule" where
  "module_Mux m name sig_a sig_b sig_s =
     (let (y, m1) = NEW_ID m;
          m2 = addWire m1 y 1;
          m3 = addMux m2 name [sig_a] [sig_b] [sig_s] [SigWire y 0]
      in (SigWire y 0, m3))"

definition addConstraint ::
  "string \<Rightarrow> rmodule \<Rightarrow> idstring \<Rightarrow> sigbit \<Rightarrow> sigbit \<Rightarrow> rmodule" where
  "addConstraint kind m name sig_a sig_en =
     addCell m \<lparr>cell_name = name, cell_type = kind, cell_parameters = [],
       cell_ports = [(pub ''A'', [sig_a]), (pub ''EN'', [sig_en])]\<rparr>"

definition addAssert :: "rmodule \<Rightarrow> idstring \<Rightarrow> sigbit \<Rightarrow> sigbit \<Rightarrow> rmodule" where
  "addAssert = addConstraint ''$assert''"

definition addAssume :: "rmodule \<Rightarrow> idstring \<Rightarrow> sigbit \<Rightarrow> sigbit \<Rightarrow> rmodule" where
  "addAssume = addConstraint ''$assume''"

definition addCover :: "rmodule \<Rightarrow> idstring \<Rightarrow> sigbit \<Rightarrow> sigbit \<Rightarrow> rmodule" where
  "addCover = addConstraint ''$cover''"

text \<open>
  Modelled from the spec: \<open>RTLIL::escape_id\<close> (kernel/rtlil.h, not under src/), which
  marks a user-declared name as public: a name that starts with neither a backslash nor a
  dollar sign gets a backslash in front.
\<close>

definition escape_id :: "string \<Rightarrow> string" where
  "escape_id str =
     (case str of
        [] \<Rightarrow> str
      | c # _ \<Rightarrow> if c \<noteq> CHR 0x5C \<and> c \<noteq> CHR ''$'' then CHR 0x5C # str else str)"

subsection \<open>VerificImporter: the net map\<close>

definition verific_sva_prims :: "prim list" where
  "verific_sva_prims = [
    ''PRIM_SVA_IMMEDIATE_ASSERT'', ''PRIM_SVA_ASSERT'', ''PRIM_SVA_COVER'', ''PRIM_SVA_ASSUME'',
    ''PRIM_SVA_EXPECT'', ''PRIM_SVA_POSEDGE'', ''PRIM_SVA_NOT'', ''PRIM_SVA_FIRST_MATCH'',
    ''PRIM_SVA_ENDED'', ''PRIM_SVA_MATCHED'', ''PRIM_SVA_CONSECUTIVE_REPEAT'',
    ''PRIM_SVA_NON_CONSECUTIVE_REPEAT'', ''PRIM_SVA_GOTO_REPEAT'',
    ''PRIM_SVA_MATCH_ITEM_TRIGGER'', ''PRIM_SVA_AND'', ''PRIM_SVA_OR'', ''PRIM_SVA_SEQ_AND'',
    ''PRIM_SVA_SEQ_OR'', ''PRIM_SVA_EVENT_OR'', ''PRIM_SVA_OVERLAPPED_IMPLICATION'',
    ''PRIM_SVA_NON_OVERLAPPED_IMPLICATION'', ''PRIM_SVA_OVERLAPPED_FOLLOWED_BY'',
    ''PRIM_SVA_NON_OVERLAPPED_FOLLOWED_BY'', ''PRIM_SVA_INTERSECT'', ''PRIM_SVA_THROUGHOUT'',
    ''PRIM_SVA_WITHIN'', ''PRIM_SVA_AT'', ''PRIM_SVA_DISABLE_IFF'', ''PRIM_SVA_SAMPLED'',
    ''PRIM_SVA_ROSE'', ''PRIM_SVA_FELL'', ''PRIM_SVA_STABLE'', ''PRIM_SVA_PAST'',
    ''PRIM_SVA_MATCH_ITEM_ASSIGN'', ''PRIM_SVA_SEQ_CONCAT'', ''PRIM_SVA_IF'',
    ''PRIM_SVA_RESTRICT'', ''PRIM_SVA_TRIGGERED'', ''PRIM_SVA_STRONG'', ''PRIM_SVA_WEAK'',
    ''PRIM_SVA_NEXTTIME'', ''PRIM_SVA_S_NEXTTIME'', ''PRIM_SVA_ALWAYS'', ''PRIM_SVA_S_ALWAYS'',
    ''PRIM_SVA_S_EVENTUALLY'', ''PRIM_SVA_EVENTUALLY'', ''PRIM_SVA_UNTIL'', ''PRIM_SVA_S_UNTIL'',
    ''PRIM_SVA_UNTIL_WITH'', ''PRIM_SVA_S_UNTIL_WITH'', ''PRIM_SVA_IMPLIES'', ''PRIM_SVA_IFF'',
    ''PRIM_SVA_ACCEPT_ON'', ''PRIM_SVA_REJECT_ON'', ''PRIM_SVA_SYNC_ACCEPT_ON'',
    ''PRIM_SVA_SYNC_REJECT_ON'', ''PRIM_SVA_GLOBAL_CLOCKING_DEF'',
    ''PRIM_SVA_GLOBAL_CLOCKING_REF'', ''PRIM_SVA_IMMEDIATE_ASSUME'',
    ''PRIM_SVA_IMMEDIATE_COVER'', ''OPER_SVA_SAMPLED'', ''OPER_SVA_STABLE'']"

definition verific_psl_prims :: "prim list" where
  "verific_psl_prims = [
    ''OPER_PSLPREV'', ''OPER_PSLNEXTFUNC'', ''PRIM_PSL_ASSERT'', ''PRIM_PSL_ASSUME'',
    ''PRIM_PSL_ASSUME_GUARANTEE'', ''PRIM_PSL_RESTRICT'', ''PRIM_PSL_RESTRICT_GUARANTEE'',
    ''PRIM_PSL_COVER'', ''PRIM_ENDPOINT'', ''PRIM_ROSE'', ''PRIM_FELL'', ''PRIM_AT'',
    ''PRIM_ATSTRONG'', ''PRIM_ABORT'', ''PRIM_PSL_NOT'', ''PRIM_PSL_AND'', ''PRIM_PSL_OR'',
    ''PRIM_IMPL'', ''PRIM_EQUIV'', ''PRIM_PSL_X'', ''PRIM_PSL_XSTRONG'', ''PRIM_PSL_G'',
    ''PRIM_PSL_F'', ''PRIM_PSL_U'', ''PRIM_PSL_W'', ''PRIM_NEXT'', ''PRIM_NEXTSTRONG'',
    ''PRIM_ALWAYS'', ''PRIM_NEVER'', ''PRIM_EVENTUALLY'', ''PRIM_UNTIL'', ''PRIM_UNTIL_'',
    ''PRIM_UNTILSTRONG'', ''PRIM_UNTILSTRONG_'', ''PRIM_BEFORE'', ''PRIM_BEFORE_'',
    ''PRIM_BEFORESTRONG'', ''PRIM_BEFORESTRONG_'', ''PRIM_NEXT_A'', ''PRIM_NEXT_ASTRONG'',
    ''PRIM_NEXT_E'', ''PRIM_NEXT_ESTRONG'', ''PRIM_NEXT_EVENT'', ''PRIM_NEXT_EVENTSTRONG'',
    ''PRIM_NEXT_EVENT_A'', ''PRIM_NEXT_EVENT_ASTRONG'', ''PRIM_NEXT_EVENT_E'',
    ''PRIM_NEXT_EVENT_ESTRONG'', ''PRIM_SEQ_IMPL'', ''PRIM_OSUFFIX_IMPL'', ''PRIM_SUFFIX_IMPL'',
    ''PRIM_OSUFFIX_IMPLSTRONG'', ''PRIM_SUFFIX_IMPLSTRONG'', ''PRIM_WITHIN'', ''PRIM_WITHIN_'',
    ''PRIM_WITHINSTRONG'', ''PRIM_WITHINSTRONG_'', ''PRIM_WHILENOT'', ''PRIM_WHILENOT_'',
    ''PRIM_WHILENOTSTRONG'', ''PRIM_WHILENOTSTRONG_'', ''PRIM_CONCAT'', ''PRIM_FUSION'',
    ''PRIM_SEQ_AND_LEN'', ''PRIM_SEQ_AND'', ''PRIM_SEQ_OR'', ''PRIM_CONS_REP'',
    ''PRIM_NONCONS_REP'', ''PRIM_GOTO_REP'']"

text \<open>
  \<open>net_map_at\<close> (lines 180-187): a net external to the netlist being imported is a fatal
  error; \<open>std::map::at\<close> throws for a net that was never mapped. The source calls the
  function on pointers that may be null and dereferences them at once.
\<close>

definition net_map_at ::
  "database \<Rightarrow> netlist_ptr \<Rightarrow> (net_ptr \<rightharpoonup> sigbit) \<Rightarrow> net_ptr option \<Rightarrow> error + sigbit" where
  "net_map_at db netlist net_map net =
     (case net of
        None \<Rightarrow> Inl NullDereference
      | Some n \<Rightarrow>
          if IsExternalTo (db_nets db n) netlist then Inl ExternalReference
          else (case net_map n of None \<Rightarrow> Inl MapOutOfRange | Some b \<Rightarrow> Inr b))"

record VerificImporter =
  imp_netlist :: netlist_ptr
  imp_net_map :: "net_ptr \<rightharpoonup> sigbit"
  mode_gates :: bool
  mode_keep :: bool
  mode_nosva :: bool
  mode_nosvapp :: bool
  mode_names :: bool
  verbose :: bool

subsection \<open>VerificClockEdge (lines 1280-1367)\<close>

definition verific_follow_inv :: "database \<Rightarrow> net_ptr option \<Rightarrow> net_ptr option" where
  "verific_follow_inv db w =
     (case w of
        None \<Rightarrow> None
      | Some n \<Rightarrow>
          if IsMultipleDriven (db_nets db n) then None
          else (case Driver (db_nets db n) of
                  None \<Rightarrow> None
                | Some i \<Rightarrow>
                    if inst_Type (db_insts db i) \<noteq> ''PRIM_INV'' then None
                    else inst_Input (db_insts db i)))"

definition verific_follow_pslprev :: "database \<Rightarrow> net_ptr option \<Rightarrow> net_ptr option" where
  "verific_follow_pslprev db w =
     (case w of
        None \<Rightarrow> None
      | Some n \<Rightarrow>
          if IsMultipleDriven (db_nets db n) then None
          else (case Driver (db_nets db n) of
                  None \<Rightarrow> None
                | Some i \<Rightarrow>
                    if inst_Type (db_insts db i) \<noteq> ''OPER_PSLPREV''
                       \<or> InputSize (db_insts db i) \<noteq> 1 then None
                    else GetInputBit (db_insts db i) 0))"

definition verific_follow_inv_pslprev :: "database \<Rightarrow> net_ptr option \<Rightarrow> net_ptr option" where
  "verific_follow_inv_pslprev db w = verific_follow_pslprev db (verific_follow_inv db w)"

text \<open>
  The members of \<open>struct VerificClockEdge\<close>. The constructor has paths that write
  neither \<open>clock_net\<close> nor \<open>posedge\<close>; C++ leaves such a member indeterminate, and
  \<open>None\<close> stands for a member that no statement has written. \<open>clock_sig\<close> is
  default-constructed, a constant zero bit, until it is assigned.
\<close>

record clock_edge =
  clock_net :: "net_ptr option"
  clock_sig :: sigbit
  posedge :: "bool option"

definition clock_edge_found ::
  "database \<Rightarrow> netlist_ptr \<Rightarrow> (net_ptr \<rightharpoonup> sigbit) \<Rightarrow> net_ptr option \<Rightarrow> bool
     \<Rightarrow> error + clock_edge" where
  "clock_edge_found db netlist net_map cn pol =
     (case net_map_at db netlist net_map cn of
        Inl e \<Rightarrow> Inl e
      | Inr s \<Rightarrow> Inr \<lparr>clock_net = cn, clock_sig = s, posedge = Some pol\<rparr>)"

definition VerificClockEdge ::
  "database \<Rightarrow> netlist_ptr \<Rightarrow> (net_ptr \<rightharpoonup> sigbit) \<Rightarrow> inst_ptr option \<Rightarrow> error + clock_edge" where
  "VerificClockEdge db netlist net_map inst_p =
     (case inst_p of
        None \<Rightarrow> Inl AssertionFailed
      | Some ip \<Rightarrow>
         (let inst = db_insts db ip in
          if inst_Type inst = ''PRIM_SVA_POSEDGE'' then
            (case inst_Input inst of
               None \<Rightarrow> Inl NullDereference
             | Some cn \<Rightarrow>
                 (case Driver (db_nets db cn) of
                    None \<Rightarrow> clock_edge_found db netlist net_map (Some cn) True
                  | Some d \<Rightarrow>
                      if \<not> IsMultipleDriven (db_nets db cn)
                         \<and> inst_Type (db_insts db d) = ''PRIM_INV''
                      then clock_edge_found db netlist net_map (inst_Input (db_insts db d)) False
                      else clock_edge_found db netlist net_map (Some cn) True))
          else if inst_Type inst = ''PRIM_AND'' then
            (let w1 = inst_Input1 inst; w2 = inst_Input2 inst in
             if verific_follow_inv_pslprev db w1 = w2
               then clock_edge_found db netlist net_map (verific_follow_inv_pslprev db w1) True
             else if verific_follow_inv_pslprev db w2 = w1
               then clock_edge_found db netlist net_map (verific_follow_inv_pslprev db w2) True
             else if verific_follow_pslprev db w1 = verific_follow_inv db w2
               then clock_edge_found db netlist net_map (verific_follow_pslprev db w1) False
             else if verific_follow_pslprev db w2 = verific_follow_inv db w1
               then clock_edge_found db netlist net_map (verific_follow_pslprev db w2) False
             else Inl Abort)
          else Inr \<lparr>clock_net = None, clock_sig = SigConst S0, posedge = None\<rparr>))"

subsection \<open>VerificSvaImporter (lines 1487-1701)\<close>

text \<open>
  The worker's \<open>module\<close> is threaded through the functions as a state, next to the
  \<open>sequence_t\<close> they update; its other members are read only while a sequence is parsed.
\<close>

record VerificSvaImporter =
  sva_importer :: VerificImporter
  sva_clock :: sigbit
  sva_clock_posedge :: bool
  sva_disable_iff :: sigbit
  sva_mode_assert :: bool
  sva_mode_assume :: bool
  sva_mode_cover :: bool

text \<open>
  The member \<open>length\<close> of \<open>sequence_t\<close> is a 32-bit \<open>int\<close> that is only counted up
  and never read; its value is kept in the range of a 32-bit \<open>int\<close>, and \<open>length++\<close>
  wraps around (the overflow is undefined in C++).
\<close>

record sequence_t =
  seq_length :: int
  sig_a :: sigbit
  sig_en :: sigbit

definition net_to_ast_driver :: "database \<Rightarrow> net_ptr option \<Rightarrow> inst_ptr option" where
  "net_to_ast_driver db n =
     (case n of
        None \<Rightarrow> None
      | Some np \<Rightarrow>
          if IsMultipleDriven (db_nets db np) then None
          else (case Driver (db_nets db np) of
                  None \<Rightarrow> None
                | Some ip \<Rightarrow>
                    if inst_Type (db_insts db ip) \<notin> set verific_sva_prims
                       \<and> inst_Type (db_insts db ip) \<notin> set verific_psl_prims then None
                    else if inst_Type (db_insts db ip) = ''PRIM_SVA_PAST'' then None
                    else Some ip))"

definition get_ast_input :: "database \<Rightarrow> Instance \<Rightarrow> inst_ptr option" where
  "get_ast_input db inst = net_to_ast_driver db (inst_Input inst)"

definition get_ast_input1 :: "database \<Rightarrow> Instance \<Rightarrow> inst_ptr option" where
  "get_ast_input1 db inst = net_to_ast_driver db (inst_Input1 inst)"

definition sequence_cond :: "sequence_t \<times> rmodule \<Rightarrow> sigbit \<Rightarrow> sequence_t \<times> rmodule" where
  "sequence_cond st cond =
     (let (seq, m) = st;
          (name, m1) = NEW_ID m;
          (y, m2) = module_And m1 name (sig_a seq) cond
      in (seq\<lparr>sig_a := y\<rparr>, m2))"

text \<open>The statement \<open>seq.sig_en = module->And(NEW_ID, seq.sig_en, seq.sig_a)\<close> of the
  implication operators.\<close>

definition sequence_enable :: "sequence_t \<times> rmodule \<Rightarrow> sequence_t \<times> rmodule" where
  "sequence_enable st =
     (let (seq, m) = st;
          (name, m1) = NEW_ID m;
          (y, m2) = module_And m1 name (sig_en seq) (sig_a seq)
      in (seq\<lparr>sig_en := y\<rparr>, m2))"

definition sequence_ff :: "VerificSvaImporter \<Rightarrow> sequence_t \<times> rmodule \<Rightarrow> sequence_t \<times> rmodule" where
  "sequence_ff w st =
     (let (seq0, m0) = st;
          (seq, m) =
            (if sva_disable_iff w \<noteq> SigConst S0
             then (let (name, ma) = NEW_ID m0;
                       (y, mb) = module_Mux ma name (sig_en seq0) (SigConst S0) (sva_disable_iff w)
                   in (seq0\<lparr>sig_en := y\<rparr>, mb))
             else (seq0, m0));
          (sig_a_q, m1) = NEW_ID m;
          m2 = wire_set_attribute (addWire m1 sig_a_q 1) sig_a_q (pub ''init'') (Const_bits [S0]);
          (sig_en_q, m3) = NEW_ID m2;
          m4 = wire_set_attribute (addWire m3 sig_en_q 1) sig_en_q (pub ''init'') (Const_bits [S0]);
          (name_a, m5) = NEW_ID m4;
          m6 = addDff m5 name_a [sva_clock w] [sig_a seq] [SigWire sig_a_q 0] (sva_clock_posedge w);
          (name_en, m7) = NEW_ID m6;
          m8 = addDff m7 name_en [sva_clock w] [sig_en seq] [SigWire sig_en_q 0] (sva_clock_posedge w)
      in (seq\<lparr>seq_length := signed_take_bit 31 (seq_length seq + 1),
               sig_a := SigWire sig_a_q 0, sig_en := SigWire sig_en_q 0\<rparr>, m8))"

text \<open>
  \<open>atoi\<close> as the C library has it (glibc on a target with a 64-bit \<open>long\<close>, not under
  src/): \<open>atoi(s)\<close> is \<open>(int) strtol(s, NULL, 10)\<close>. \<open>strtol\<close> reads white space, an
  optional sign and then decimal digits up to the first other character, and saturates at
  the range of \<open>long\<close>; the conversion to the 32-bit \<open>int\<close> keeps the low 32 bits. So
  \<open>atoi\<close> of \<open>4294967298\<close> is 2.
\<close>

definition isspace :: "char \<Rightarrow> bool" where
  "isspace c = (c = CHR '' '' \<or> (9 \<le> (of_char c :: nat) \<and> (of_char c :: nat) \<le> 13))"

definition isdigit :: "char \<Rightarrow> bool" where
  "isdigit c = (48 \<le> (of_char c :: nat) \<and> (of_char c :: nat) \<le> 57)"

fun atoi_digits :: "int \<Rightarrow> string \<Rightarrow> int" where
  "atoi_digits acc [] = acc"
| "atoi_digits acc (c # cs) =
     (if isdigit c then atoi_digits (10 * acc + (int (of_char c) - 48)) cs else acc)"

definition strtol :: "string \<Rightarrow> int" where
  "strtol str =
     (let v = (case dropWhile isspace str of
                 [] \<Rightarrow> 0
               | c # cs \<Rightarrow>
                   if c = CHR ''-'' then - atoi_digits 0 cs
                   else if c = CHR ''+'' then atoi_digits 0 cs
                   else atoi_digits 0 (c # cs))
      in max (- (2 ^ 63)) (min (2 ^ 63 - 1) v))"

definition atoi :: "string \<Rightarrow> int" where
  "atoi str = signed_take_bit 31 (strtol str)"

text \<open>\<open>atoi(inst->GetAttValue(key))\<close>: \<open>GetAttValue\<close> is null for an absent attribute.\<close>

definition atoi_att :: "Instance \<Rightarrow> string \<Rightarrow> error + int" where
  "atoi_att inst key =
     (case GetAttValue (inst_Atts inst) key of
        None \<Rightarrow> Inl NullDereference
      | Some v \<Rightarrow> Inr (atoi v))"

text \<open>
  The source graph is a pointer graph, so the recursion of \<open>parse_sequence\<close> is bounded
  by a fuel argument; \<open>None\<close> means that the fuel ran out. \<open>bind_res\<close> passes an error or
  an exhausted fuel on, \<open>for_loop\<close> repeats a body that may fail.
\<close>

definition bind_res ::
  "(error + 'a) option \<Rightarrow> ('a \<Rightarrow> (error + 'b) option) \<Rightarrow> (error + 'b) option" where
  "bind_res r f = (case r of None \<Rightarrow> None | Some (Inl e) \<Rightarrow> Some (Inl e) | Some (Inr x) \<Rightarrow> f x)"

fun for_loop :: "nat \<Rightarrow> ('s \<Rightarrow> (error + 's) option) \<Rightarrow> 's \<Rightarrow> (error + 's) option" where
  "for_loop 0 body st = Some (Inr st)"
| "for_loop (Suc k) body st = bind_res (body st) (for_loop k body)"

fun parse_sequence ::
  "nat \<Rightarrow> database \<Rightarrow> VerificSvaImporter \<Rightarrow> sequence_t \<times> rmodule \<Rightarrow> net_ptr option
     \<Rightarrow> (error + sequence_t \<times> rmodule) option" where
  "parse_sequence 0 db w st n = None"
| "parse_sequence (Suc fuel) db w st n =
     (case net_to_ast_driver db n of
        None \<Rightarrow>
          (case net_map_at db (imp_netlist (sva_importer w)) (imp_net_map (sva_importer w)) n of
             Inl e \<Rightarrow> Some (Inl e)
           | Inr cond \<Rightarrow> Some (Inr (sequence_cond st cond)))
      | Some ip \<Rightarrow>
         (let inst = db_insts db ip in
          if inst_Type inst = ''PRIM_SVA_OVERLAPPED_IMPLICATION'' then
            bind_res (parse_sequence fuel db w st (inst_Input1 inst))
              (\<lambda>st1. parse_sequence fuel db w (sequence_enable st1) (inst_Input2 inst))
          else if inst_Type inst = ''PRIM_SVA_NON_OVERLAPPED_IMPLICATION'' then
            bind_res (parse_sequence fuel db w st (inst_Input1 inst))
              (\<lambda>st1. parse_sequence fuel db w (sequence_ff w (sequence_enable st1)) (inst_Input2 inst))
          else if inst_Type inst = ''PRIM_SVA_SEQ_CONCAT'' then
            (case atoi_att inst ''sva:low'' of
               Inl e \<Rightarrow> Some (Inl e)
             | Inr sva_low \<Rightarrow>
            (case atoi_att inst ''sva:low'' of
               Inl e \<Rightarrow> Some (Inl e)
             | Inr sva_high \<Rightarrow>
                 if sva_low \<noteq> sva_high then Some (Inl UnsupportedConcatRange)
                 else
                   bind_res (parse_sequence fuel db w st (inst_Input1 inst))
                     (\<lambda>st1. parse_sequence fuel db w ((sequence_ff w ^^ nat sva_low) st1)
                               (inst_Input2 inst))))
          else if inst_Type inst = ''PRIM_SVA_CONSECUTIVE_REPEAT'' then
            (case atoi_att inst ''sva:low'' of
               Inl e \<Rightarrow> Some (Inl e)
             | Inr sva_low \<Rightarrow>
            (case atoi_att inst ''sva:low'' of
               Inl e \<Rightarrow> Some (Inl e)
             | Inr sva_high \<Rightarrow>
                 if sva_low \<noteq> sva_high then Some (Inl UnsupportedRepeatRange)
                 else
                   bind_res (parse_sequence fuel db w st (inst_Input inst))
                     (for_loop (nat (sva_low - 1))
                        (\<lambda>st1. parse_sequence fuel db w (sequence_ff w st1) (inst_Input inst)))))
          else if inst_Type inst = ''PRIM_ALWAYS'' then
            parse_sequence fuel db w st (inst_Input inst)
          else if inst_Type inst = ''PRIM_IMPL'' then
            bind_res (parse_sequence fuel db w st (inst_Input1 inst))
              (\<lambda>st1. parse_sequence fuel db w (sequence_enable st1) (inst_Input2 inst))
          else if inst_Type inst = ''PRIM_SUFFIX_IMPL'' then
            bind_res (parse_sequence fuel db w st (inst_Input1 inst))
              (\<lambda>st1. parse_sequence fuel db w (sequence_ff w (sequence_enable st1)) (inst_Input2 inst))
          else if \<not> mode_keep (sva_importer w)
            then Some (Inl (UnsupportedSvaPrimitive (inst_Name inst)))
          else Some (Inr st)))"

text \<open>
  The nets that \<open>parse_sequence\<close> goes on to from a node, and the sequences that it
  reaches the leaves of within \<open>d\<close> levels: for these the recursion comes to an end.
\<close>

definition seq_operands :: "Instance \<Rightarrow> net_ptr option list" where
  "seq_operands inst =
     (if inst_Type inst \<in> set [''PRIM_SVA_OVERLAPPED_IMPLICATION'',
                               ''PRIM_SVA_NON_OVERLAPPED_IMPLICATION'', ''PRIM_SVA_SEQ_CONCAT'',
                               ''PRIM_IMPL'', ''PRIM_SUFFIX_IMPL'']
      then [inst_Input1 inst, inst_Input2 inst]
      else if inst_Type inst \<in> set [''PRIM_SVA_CONSECUTIVE_REPEAT'', ''PRIM_ALWAYS'']
      then [inst_Input inst]
      else [])"

fun seq_bounded :: "nat \<Rightarrow> database \<Rightarrow> net_ptr option \<Rightarrow> bool" where
  "seq_bounded 0 db n = False"
| "seq_bounded (Suc d) db n =
     (case net_to_ast_driver db n of
        None \<Rightarrow> True
      | Some ip \<Rightarrow> list_all (seq_bounded d db) (seq_operands (db_insts db ip)))"

text \<open>
  \<open>run\<close> (lines 1659-1700). \<open>Module::uniquify\<close> (kernel/rtlil.cc) is not under src/
  and is a parameter. Reading \<open>clock_edge.posedge\<close> when the constructor has not written
  it is undefined behaviour and modelled as an error.
\<close>

definition sva_disable ::
  "database \<Rightarrow> VerificSvaImporter \<Rightarrow> net_ptr option \<Rightarrow> error + VerificSvaImporter \<times> net_ptr option" where
  "sva_disable db w sequence_net =
     (let imp = sva_importer w in
      case net_to_ast_driver db sequence_net of
        None \<Rightarrow> Inr (w, sequence_net)
      | Some sp \<Rightarrow>
          (let sequence_node = db_insts db sp in
           if inst_Type sequence_node = ''PRIM_SVA_DISABLE_IFF'' then
             (case net_map_at db (imp_netlist imp) (imp_net_map imp) (inst_Input1 sequence_node) of
                Inl e \<Rightarrow> Inl e
              | Inr d \<Rightarrow> Inr (w\<lparr>sva_disable_iff := d\<rparr>, inst_Input2 sequence_node))
           else if inst_Type sequence_node = ''PRIM_ABORT'' then
             (case net_map_at db (imp_netlist imp) (imp_net_map imp) (inst_Input2 sequence_node) of
                Inl e \<Rightarrow> Inl e
              | Inr d \<Rightarrow> Inr (w\<lparr>sva_disable_iff := d\<rparr>, inst_Input1 sequence_node))
           else Inr (w, sequence_net)))"

definition sva_clock_node :: "database \<Rightarrow> Instance \<Rightarrow> error + inst_ptr option" where
  "sva_clock_node db at_node =
     (if inst_Type at_node = ''PRIM_SVA_AT'' then Inr (get_ast_input1 db at_node)
      else (case inst_Input2 at_node of
              None \<Rightarrow> Inl NullDereference
            | Some n \<Rightarrow> Inr (Driver (db_nets db n))))"

definition sva_emit ::
  "database \<Rightarrow> (rmodule \<Rightarrow> idstring \<Rightarrow> idstring) \<Rightarrow> VerificSvaImporter \<Rightarrow> Instance
     \<Rightarrow> sequence_t \<times> rmodule \<Rightarrow> rmodule" where
  "sva_emit db uniquify w root st =
     (let (seq, m1) = st;
          (root_name, m2) =
            (if mode_names (sva_importer w) \<or> inst_IsUserDeclared root
             then (uniquify m1 (Id (escape_id (inst_Name root))), m1)
             else (let (name, m') = NEW_ID m1 in (uniquify m' name, m')));
          m3 = (if sva_mode_assert w then addAssert m2 root_name (sig_a seq) (sig_en seq) else m2);
          m4 = (if sva_mode_assume w then addAssume m3 root_name (sig_a seq) (sig_en seq) else m3);
          m5 = (if sva_mode_cover w then addCover m4 root_name (sig_a seq) (sig_en seq) else m4)
      in m5)"

definition sva_prepare ::
  "database \<Rightarrow> VerificSvaImporter \<Rightarrow> Instance \<Rightarrow> error + VerificSvaImporter \<times> net_ptr option" where
  "sva_prepare db w0 root =
     (let imp = sva_importer w0 in
      case get_ast_input db root of
        None \<Rightarrow> Inl AssertionFailed
      | Some at_p \<Rightarrow>
         (let at_node = db_insts db at_p in
          if inst_Type at_node \<noteq> ''PRIM_SVA_AT'' \<and> inst_Type at_node \<noteq> ''PRIM_AT''
          then Inl AssertionFailed
          else
            (case sva_clock_node db at_node of
               Inl e \<Rightarrow> Inl e
             | Inr clk_inst \<Rightarrow>
            (case VerificClockEdge db (imp_netlist imp) (imp_net_map imp) clk_inst of
               Inl e \<Rightarrow> Inl e
             | Inr clock_edge \<Rightarrow>
            (case posedge clock_edge of
               None \<Rightarrow> Inl UninitializedRead
             | Some pol \<Rightarrow>
                 sva_disable db (w0\<lparr>sva_clock := clock_sig clock_edge, sva_clock_posedge := pol\<rparr>)
                   (if inst_Type at_node = ''PRIM_SVA_AT'' then inst_Input2 at_node
                    else inst_Input1 at_node))))))"

definition initial_sequence :: sequence_t where
  "initial_sequence = \<lparr>seq_length = 0, sig_a = SigConst S1, sig_en = SigConst S1\<rparr>"

definition sva_run ::
  "nat \<Rightarrow> database \<Rightarrow> (rmodule \<Rightarrow> idstring \<Rightarrow> idstring) \<Rightarrow> VerificSvaImporter \<Rightarrow> rmodule
     \<Rightarrow> inst_ptr \<Rightarrow> (error + rmodule) option" where
  "sva_run fuel db uniquify w0 m root_p =
     (case sva_prepare db w0 (db_insts db root_p) of
        Inl e \<Rightarrow> Some (Inl e)
      | Inr (w, sequence_net) \<Rightarrow>
          bind_res (parse_sequence fuel db w (initial_sequence, m) sequence_net)
            (\<lambda>st1. Some (Inr (sva_emit db uniquify w (db_insts db root_p) (sequence_ff w st1)))))"

definition new_worker :: "VerificImporter \<Rightarrow> VerificSvaImporter" where
  "new_worker importer =
     \<lparr>sva_importer = importer, sva_clock = SigConst Sx, sva_clock_posedge = False,
      sva_disable_iff = SigConst S0, sva_mode_assert = False, sva_mode_assume = False,
      sva_mode_cover = False\<rparr>"

definition import_sva_assert ::
  "nat \<Rightarrow> database \<Rightarrow> (rmodule \<Rightarrow> idstring \<Rightarrow> idstring) \<Rightarrow> VerificImporter \<Rightarrow> rmodule
     \<Rightarrow> inst_ptr \<Rightarrow> (error + rmodule) option" where
  "import_sva_assert fuel db uniquify importer m inst =
     sva_run fuel db uniquify ((new_worker importer)\<lparr>sva_mode_assert := True\<rparr>) m inst"

definition import_sva_assume ::
  "nat \<Rightarrow> database \<Rightarrow> (rmodule \<Rightarrow> idstring \<Rightarrow> idstring) \<Rightarrow> VerificImporter \<Rightarrow> rmodule
     \<Rightarrow> inst_ptr \<Rightarrow> (error + rmodule) option" where
  "import_sva_assume fuel db uniquify importer m inst =
     sva_run fuel db uniquify ((new_worker importer)\<lparr>sva_mode_assume := True\<rparr>) m inst"

definition import_sva_cover ::
  "nat \<Rightarrow> database \<Rightarrow> (rmodule \<Rightarrow> idstring \<Rightarrow> idstring) \<Rightarrow> VerificImporter \<Rightarrow> rmodule
     \<Rightarrow> inst_ptr \<Rightarrow> (error + rmodule) option" where
  "import_sva_cover fuel db uniquify importer m inst =
     sva_run fuel db uniquify ((new_worker importer)\<lparr>sva_mode_cover := True\<rparr>) m inst"

subsection \<open>Primitive instances: gate level and cell level (lines 279-456)\<close>

text \<open>
  Modelled from the spec: the primitive builders of \<open>RTLIL::Module\<close> (kernel/rtlil.cc,
  not under src/). A gate-level builder adds one cell of a single-bit gate type; the
  clocked ones are \<open>$_DFF_P_\<close> (clock, data, output), \<open>$_DFF_PP0_\<close> and \<open>$_DFF_PP1_\<close>
  (with an asynchronous reset to the value in the name) and \<open>$_DFFSR_PPP_\<close> (with set and
  reset). A cell-level builder adds one coarse-grain cell with its widths as parameters:
  \<open>$dff\<close>, \<open>$adff\<close> with the parameter \<open>ARST_VALUE\<close>, and \<open>$dffsr\<close>.
\<close>

definition addGate :: "rmodule \<Rightarrow> idstring \<Rightarrow> string \<Rightarrow> (string \<times> sigspec) list \<Rightarrow> rmodule" where
  "addGate m name ty ports =
     addCell m \<lparr>cell_name = name, cell_type = ty, cell_parameters = [], cell_ports = ports\<rparr>"

definition addAndGate :: "rmodule \<Rightarrow> idstring \<Rightarrow> sigspec \<Rightarrow> sigspec \<Rightarrow> sigspec \<Rightarrow> rmodule" where
  "addAndGate m name a b y = addGate m name ''$_AND_'' [(pub ''A'', a), (pub ''B'', b), (pub ''Y'', y)]"

definition addOrGate :: "rmodule \<Rightarrow> idstring \<Rightarrow> sigspec \<Rightarrow> sigspec \<Rightarrow> sigspec \<Rightarrow> rmodule" where
  "addOrGate m name a b y = addGate m name ''$_OR_'' [(pub ''A'', a), (pub ''B'', b), (pub ''Y'', y)]"

definition addXorGate :: "rmodule \<Rightarrow> idstring \<Rightarrow> sigspec \<Rightarrow> sigspec \<Rightarrow> sigspec \<Rightarrow> rmodule" where
  "addXorGate m name a b y = addGate m name ''$_XOR_'' [(pub ''A'', a), (pub ''B'', b), (pub ''Y'', y)]"

definition addXnorGate :: "rmodule \<Rightarrow> idstring \<Rightarrow> sigspec \<Rightarrow> sigspec \<Rightarrow> sigspec \<Rightarrow> rmodule" where
  "addXnorGate m name a b y = addGate m name ''$_XNOR_'' [(pub ''A'', a), (pub ''B'', b), (pub ''Y'', y)]"

definition addNotGate :: "rmodule \<Rightarrow> idstring \<Rightarrow> sigspec \<Rightarrow> sigspec \<Rightarrow> rmodule" where
  "addNotGate m name a y = addGate m name ''$_NOT_'' [(pub ''A'', a), (pub ''Y'', y)]"

definition addBufGate :: "rmodule \<Rightarrow> idstring \<Rightarrow> sigspec \<Rightarrow> sigspec \<Rightarrow> rmodule" where
  "addBufGate m name a y = addGate m name ''$_BUF_'' [(pub ''A'', a), (pub ''Y'', y)]"

definition addMuxGate ::
  "rmodule \<Rightarrow> idstring \<Rightarrow> sigspec \<Rightarrow> sigspec \<Rightarrow> sigspec \<Rightarrow> sigspec \<Rightarrow> rmodule" where
  "addMuxGate m name a b s y =
     addGate m name ''$_MUX_'' [(pub ''A'', a), (pub ''B'', b), (pub ''S'', s), (pub ''Y'', y)]"

definition addDffGate :: "rmodule \<Rightarrow> idstring \<Rightarrow> sigspec \<Rightarrow> sigspec \<Rightarrow> sigspec \<Rightarrow> rmodule" where
  "addDffGate m name clk d q =
     addGate m name ''$_DFF_P_'' [(pub ''C'', clk), (pub ''D'', d), (pub ''Q'', q)]"

definition addAdffGate ::
  "rmodule \<Rightarrow> idstring \<Rightarrow> sigspec \<Rightarrow> sigspec \<Rightarrow> sigspec \<Rightarrow> sigspec \<Rightarrow> bool \<Rightarrow> rmodule" where
  "addAdffGate m name clk arst d q arst_value =
     addGate m name (if arst_value then ''$_DFF_PP1_'' else ''$_DFF_PP0_'')
       [(pub ''C'', clk), (pub ''R'', arst), (pub ''D'', d), (pub ''Q'', q)]"

definition addDffsrGate ::
  "rmodule \<Rightarrow> idstring \<Rightarrow> sigspec \<Rightarrow> sigspec \<Rightarrow> sigspec \<Rightarrow> sigspec \<Rightarrow> sigspec \<Rightarrow> rmodule" where
  "addDffsrGate m name clk sig_set sig_clr d q =
     addGate m name ''$_DFFSR_PPP_''
       [(pub ''C'', clk), (pub ''S'', sig_set), (pub ''R'', sig_clr), (pub ''D'', d), (pub ''Q'', q)]"

definition addBinary ::
  "string \<Rightarrow> rmodule \<Rightarrow> idstring \<Rightarrow> sigspec \<Rightarrow> sigspec \<Rightarrow> sigspec \<Rightarrow> rmodule" where
  "addBinary ty m name as bs ys =
     addCell m \<lparr>cell_name = name, cell_type = ty,
       cell_parameters = [(pub ''A_SIGNED'', Const_bool False), (pub ''B_SIGNED'', Const_bool False),
                          (pub ''A_WIDTH'', Const_int (int (length as))),
                          (pub ''B_WIDTH'', Const_int (int (length bs))),
                          (pub ''Y_WIDTH'', Const_int (int (length ys)))],
       cell_ports = [(pub ''A'', as), (pub ''B'', bs), (pub ''Y'', ys)]\<rparr>"

definition addNot :: "rmodule \<Rightarrow> idstring \<Rightarrow> sigspec \<Rightarrow> sigspec \<Rightarrow> rmodule" where
  "addNot m name as ys =
     addCell m \<lparr>cell_name = name, cell_type = ''$not'',
       cell_parameters = [(pub ''A_SIGNED'', Const_bool False),
                          (pub ''A_WIDTH'', Const_int (int (length as))),
                          (pub ''Y_WIDTH'', Const_int (int (length ys)))],
       cell_ports = [(pub ''A'', as), (pub ''Y'', ys)]\<rparr>"

definition addAdff ::
  "rmodule \<Rightarrow> idstring \<Rightarrow> sigspec \<Rightarrow> sigspec \<Rightarrow> sigspec \<Rightarrow> sigspec \<Rightarrow> state \<Rightarrow> rmodule" where
  "addAdff m name clk arst d q arst_value =
     addCell m \<lparr>cell_name = name, cell_type = ''$adff'',
       cell_parameters = [(pub ''CLK_POLARITY'', Const_bool True),
                          (pub ''ARST_POLARITY'', Const_bool True),
                          (pub ''ARST_VALUE'', Const_bits [arst_value]),
                          (pub ''WIDTH'', Const_int (int (length q)))],
       cell_ports = [(pub ''CLK'', clk), (pub ''ARST'', arst), (pub ''D'', d), (pub ''Q'', q)]\<rparr>"

definition addDffsr ::
  "rmodule \<Rightarrow> idstring \<Rightarrow> sigspec \<Rightarrow> sigspec \<Rightarrow> sigspec \<Rightarrow> sigspec \<Rightarrow> sigspec \<Rightarrow> rmodule" where
  "addDffsr m name clk sig_set sig_clr d q =
     addCell m \<lparr>cell_name = name, cell_type = ''$dffsr'',
       cell_parameters = [(pub ''CLK_POLARITY'', Const_bool True),
                          (pub ''SET_POLARITY'', Const_bool True),
                          (pub ''CLR_POLARITY'', Const_bool True),
                          (pub ''WIDTH'', Const_int (int (length q)))],
       cell_ports = [(pub ''CLK'', clk), (pub ''SET'', sig_set), (pub ''CLR'', sig_clr),
                     (pub ''D'', d), (pub ''Q'', q)]\<rparr>"

definition addDlatch :: "rmodule \<Rightarrow> idstring \<Rightarrow> sigspec \<Rightarrow> sigspec \<Rightarrow> sigspec \<Rightarrow> rmodule" where
  "addDlatch m name en d q =
     addCell m \<lparr>cell_name = name, cell_type = ''$dlatch'',
       cell_parameters = [(pub ''EN_POLARITY'', Const_bool True),
                          (pub ''WIDTH'', Const_int (int (length q)))],
       cell_ports = [(pub ''EN'', en), (pub ''D'', d), (pub ''Q'', q)]\<rparr>"

definition addDlatchsr ::
  "rmodule \<Rightarrow> idstring \<Rightarrow> sigspec \<Rightarrow> sigspec \<Rightarrow> sigspec \<Rightarrow> sigspec \<Rightarrow> sigspec \<Rightarrow> rmodule" where
  "addDlatchsr m name en sig_set sig_clr d q =
     addCell m \<lparr>cell_name = name, cell_type = ''$dlatchsr'',
       cell_parameters = [(pub ''EN_POLARITY'', Const_bool True),
                          (pub ''SET_POLARITY'', Const_bool True),
                          (pub ''CLR_POLARITY'', Const_bool True),
                          (pub ''WIDTH'', Const_int (int (length q)))],
       cell_ports = [(pub ''EN'', en), (pub ''SET'', sig_set), (pub ''CLR'', sig_clr),
                     (pub ''D'', d), (pub ''Q'', q)]\<rparr>"

definition bind_err :: "error + 'a \<Rightarrow> ('a \<Rightarrow> error + 'b) \<Rightarrow> error + 'b" where
  "bind_err r f = (case r of Inl e \<Rightarrow> Inl e | Inr x \<Rightarrow> f x)"

text \<open>\<open>net->IsGnd()\<close> on a pointer that may be null.\<close>

definition IsGnd :: "database \<Rightarrow> net_ptr option \<Rightarrow> error + bool" where
  "IsGnd db p = (case p of None \<Rightarrow> Inl NullDereference | Some n \<Rightarrow> Inr (net_IsGnd (db_nets db n)))"

text \<open>\<open>module->addWire(NEW_ID)\<close>, the fresh one-bit wire of a temporary.\<close>

definition new_wire :: "rmodule \<Rightarrow> sigspec \<times> rmodule" where
  "new_wire m = (let (name, m1) = NEW_ID m in ([SigWire name 0], addWire m1 name 1))"

text \<open>\<open>p ? net_map_at(p) : module->addWire(NEW_ID)\<close> of the full adder.\<close>

definition net_or_new_wire ::
  "(net_ptr option \<Rightarrow> error + sigbit) \<Rightarrow> rmodule \<Rightarrow> net_ptr option \<Rightarrow> error + sigspec \<times> rmodule" where
  "net_or_new_wire at m p =
     (case p of None \<Rightarrow> Inr (new_wire m) | Some n \<Rightarrow> bind_err (at p) (\<lambda>b. Inr ([b], m)))"

text \<open>
  The flip-flop with set and reset, \<open>PRIM_DFFRS\<close>, in both functions: the same four-way
  choice, with the gate-level or the cell-level builders. The arguments of a call are
  evaluated here from left to right (C++ leaves the order open; every failure is an error
  of \<open>net_map_at\<close>).
\<close>

definition import_dffrs_gates ::
  "database \<Rightarrow> (net_ptr option \<Rightarrow> error + sigbit) \<Rightarrow> rmodule \<Rightarrow> Instance \<Rightarrow> idstring
     \<Rightarrow> error + bool \<times> rmodule" where
  "import_dffrs_gates db at m inst inst_name =
     bind_err (IsGnd db (inst_Set inst)) (\<lambda>set_gnd.
     bind_err (IsGnd db (inst_Reset inst)) (\<lambda>reset_gnd.
       if set_gnd \<and> reset_gnd then
         bind_err (at (inst_Clock inst)) (\<lambda>c. bind_err (at (inst_Input inst)) (\<lambda>d.
         bind_err (at (inst_Output inst)) (\<lambda>q.
           Inr (True, addDffGate m inst_name [c] [d] [q]))))
       else if set_gnd then
         bind_err (at (inst_Clock inst)) (\<lambda>c. bind_err (at (inst_Reset inst)) (\<lambda>r.
         bind_err (at (inst_Input inst)) (\<lambda>d. bind_err (at (inst_Output inst)) (\<lambda>q.
           Inr (True, addAdffGate m inst_name [c] [r] [d] [q] False)))))
       else if reset_gnd then
         bind_err (at (inst_Clock inst)) (\<lambda>c. bind_err (at (inst_Set inst)) (\<lambda>s.
         bind_err (at (inst_Input inst)) (\<lambda>d. bind_err (at (inst_Output inst)) (\<lambda>q.
           Inr (True, addAdffGate m inst_name [c] [s] [d] [q] True)))))
       else
         bind_err (at (inst_Clock inst)) (\<lambda>c. bind_err (at (inst_Set inst)) (\<lambda>s.
         bind_err (at (inst_Reset inst)) (\<lambda>r. bind_err (at (inst_Input inst)) (\<lambda>d.
         bind_err (at (inst_Output inst)) (\<lambda>q.
           Inr (True, addDffsrGate m inst_name [c] [s] [r] [d] [q]))))))))"

definition import_dffrs_cells ::
  "database \<Rightarrow> (net_ptr option \<Rightarrow> error + sigbit) \<Rightarrow> rmodule \<Rightarrow> Instance \<Rightarrow> idstring
     \<Rightarrow> error + bool \<times> rmodule" where
  "import_dffrs_cells db at m inst inst_name =
     bind_err (IsGnd db (inst_Set inst)) (\<lambda>set_gnd.
     bind_err (IsGnd db (inst_Reset inst)) (\<lambda>reset_gnd.
       if set_gnd \<and> reset_gnd then
         bind_err (at (inst_Clock inst)) (\<lambda>c. bind_err (at (inst_Input inst)) (\<lambda>d.
         bind_err (at (inst_Output inst)) (\<lambda>q.
           Inr (True, addDff m inst_name [c] [d] [q] True))))
       else if set_gnd then
         bind_err (at (inst_Clock inst)) (\<lambda>c. bind_err (at (inst_Reset inst)) (\<lambda>r.
         bind_err (at (inst_Input inst)) (\<lambda>d. bind_err (at (inst_Output inst)) (\<lambda>q.
           Inr (True, addAdff m inst_name [c] [r] [d] [q] S0)))))
       else if reset_gnd then
         bind_err (at (inst_Clock inst)) (\<lambda>c. bind_err (at (inst_Set inst)) (\<lambda>s.
         bind_err (at (inst_Input inst)) (\<lambda>d. bind_err (at (inst_Output inst)) (\<lambda>q.
           Inr (True, addAdff m inst_name [c] [s] [d] [q] S1)))))
       else
         bind_err (at (inst_Clock inst)) (\<lambda>c. bind_err (at (inst_Set inst)) (\<lambda>s.
         bind_err (at (inst_Reset inst)) (\<lambda>r. bind_err (at (inst_Input inst)) (\<lambda>d.
         bind_err (at (inst_Output inst)) (\<lambda>q.
           Inr (True, addDffsr m inst_name [c] [s] [r] [d] [q]))))))))"

text \<open>
  \<open>import_netlist_instance_gates\<close> (lines 279-368) and \<open>import_netlist_instance_cells\<close>
  (lines 370-643). The operator kinds of the second function (lines 458-640) come after
  every primitive kind and are a parameter here.
\<close>

definition import_netlist_instance_gates ::
  "database \<Rightarrow> VerificImporter \<Rightarrow> rmodule \<Rightarrow> Instance \<Rightarrow> idstring \<Rightarrow> error + bool \<times> rmodule" where
  "import_netlist_instance_gates db imp m inst inst_name =
     (let at = net_map_at db (imp_netlist imp) (imp_net_map imp) in
        if inst_Type inst = ''PRIM_AND'' then
          bind_err (at (inst_Input1 inst)) (\<lambda>a.
          bind_err (at (inst_Input2 inst)) (\<lambda>b.
          bind_err (at (inst_Output inst)) (\<lambda>y.
            Inr (True, addAndGate m inst_name [a] [b] [y]))))
        else if inst_Type inst = ''PRIM_NAND'' then
          (let (tmp, m1) = new_wire m; (name, m2) = NEW_ID m1 in
           bind_err (at (inst_Input1 inst)) (\<lambda>a.
           bind_err (at (inst_Input2 inst)) (\<lambda>b.
           bind_err (at (inst_Output inst)) (\<lambda>y.
             Inr (True, addNotGate (addAndGate m2 name [a] [b] tmp) inst_name tmp [y])))))
        else if inst_Type inst = ''PRIM_OR'' then
          bind_err (at (inst_Input1 inst)) (\<lambda>a.
          bind_err (at (inst_Input2 inst)) (\<lambda>b.
          bind_err (at (inst_Output inst)) (\<lambda>y.
            Inr (True, addOrGate m inst_name [a] [b] [y]))))
        else if inst_Type inst = ''PRIM_NOR'' then
          (let (tmp, m1) = new_wire m; (name, m2) = NEW_ID m1 in
           bind_err (at (inst_Input1 inst)) (\<lambda>a.
           bind_err (at (inst_Input2 inst)) (\<lambda>b.
           bind_err (at (inst_Output inst)) (\<lambda>y.
             Inr (True, addNotGate (addOrGate m2 name [a] [b] tmp) inst_name tmp [y])))))
        else if inst_Type inst = ''PRIM_XOR'' then
          bind_err (at (inst_Input1 inst)) (\<lambda>a.
          bind_err (at (inst_Input2 inst)) (\<lambda>b.
          bind_err (at (inst_Output inst)) (\<lambda>y.
            Inr (True, addXorGate m inst_name [a] [b] [y]))))
        else if inst_Type inst = ''PRIM_XNOR'' then
          bind_err (at (inst_Input1 inst)) (\<lambda>a.
          bind_err (at (inst_Input2 inst)) (\<lambda>b.
          bind_err (at (inst_Output inst)) (\<lambda>y.
            Inr (True, addXnorGate m inst_name [a] [b] [y]))))
        else if inst_Type inst = ''PRIM_BUF'' then
          bind_err (at (inst_Input inst)) (\<lambda>a.
          bind_err (at (inst_Output inst)) (\<lambda>y.
            Inr (True, addBufGate m inst_name [a] [y])))
        else if inst_Type inst = ''PRIM_INV'' then
          bind_err (at (inst_Input inst)) (\<lambda>a.
          bind_err (at (inst_Output inst)) (\<lambda>y.
            Inr (True, addNotGate m inst_name [a] [y])))
        else if inst_Type inst = ''PRIM_MUX'' then
          bind_err (at (inst_Input1 inst)) (\<lambda>a.
          bind_err (at (inst_Input2 inst)) (\<lambda>b.
          bind_err (at (inst_Control inst)) (\<lambda>s.
          bind_err (at (inst_Output inst)) (\<lambda>y.
            Inr (True, addMuxGate m inst_name [a] [b] [s] [y])))))
        else if inst_Type inst = ''PRIM_TRI'' then
          bind_err (at (inst_Input inst)) (\<lambda>b.
          bind_err (at (inst_Control inst)) (\<lambda>s.
          bind_err (at (inst_Output inst)) (\<lambda>y.
            Inr (True, addMuxGate m inst_name [SigConst Sz] [b] [s] [y]))))
        else if inst_Type inst = ''PRIM_FADD'' then
          bind_err (at (inst_Input1 inst)) (\<lambda>a.
          bind_err (at (inst_Input2 inst)) (\<lambda>b.
          bind_err (at (inst_Cin inst)) (\<lambda>c.
          bind_err (net_or_new_wire at m (inst_Cout inst)) (\<lambda>xm.
          bind_err (net_or_new_wire at (snd xm) (inst_Output inst)) (\<lambda>ym.
            (let x = fst xm; y = fst ym;
                (tmp1, m1) = new_wire (snd ym);
                (tmp2, m2) = new_wire m1;
                (tmp3, m3) = new_wire m2;
                (n1, m4) = NEW_ID m3;
                m5 = addXorGate m4 n1 [a] [b] tmp1;
                m6 = addXorGate m5 inst_name tmp1 [c] y;
                (n2, m7) = NEW_ID m6;
                m8 = addAndGate m7 n2 tmp1 [c] tmp2;
                (n3, m9) = NEW_ID m8;
                m10 = addAndGate m9 n3 [a] [b] tmp3;
                (n4, m11) = NEW_ID m10
            in Inr (True, addOrGate m11 n4 tmp2 tmp3 x)))))))
        else if inst_Type inst = ''PRIM_DFFRS'' then import_dffrs_gates db at m inst inst_name
        else Inr (False, m))"

definition import_netlist_instance_cells ::
  "(rmodule \<Rightarrow> Instance \<Rightarrow> idstring \<Rightarrow> error + bool \<times> rmodule)
     \<Rightarrow> database \<Rightarrow> VerificImporter \<Rightarrow> rmodule \<Rightarrow> Instance \<Rightarrow> idstring
     \<Rightarrow> error + bool \<times> rmodule" where
  "import_netlist_instance_cells operators db imp m inst inst_name =
     (let at = net_map_at db (imp_netlist imp) (imp_net_map imp) in
        if inst_Type inst = ''PRIM_AND'' then
          bind_err (at (inst_Input1 inst)) (\<lambda>a.
          bind_err (at (inst_Input2 inst)) (\<lambda>b.
          bind_err (at (inst_Output inst)) (\<lambda>y.
            Inr (True, addBinary ''$and'' m inst_name [a] [b] [y]))))
        else if inst_Type inst = ''PRIM_NAND'' then
          (let (tmp, m1) = new_wire m; (name, m2) = NEW_ID m1 in
           bind_err (at (inst_Input1 inst)) (\<lambda>a.
           bind_err (at (inst_Input2 inst)) (\<lambda>b.
           bind_err (at (inst_Output inst)) (\<lambda>y.
             Inr (True, addNot (addBinary ''$and'' m2 name [a] [b] tmp) inst_name tmp [y])))))
        else if inst_Type inst = ''PRIM_OR'' then
          bind_err (at (inst_Input1 inst)) (\<lambda>a.
          bind_err (at (inst_Input2 inst)) (\<lambda>b.
          bind_err (at (inst_Output inst)) (\<lambda>y.
            Inr (True, addBinary ''$or'' m inst_name [a] [b] [y]))))
        else if inst_Type inst = ''PRIM_NOR'' then
          (let (tmp, m1) = new_wire m; (name, m2) = NEW_ID m1 in
           bind_err (at (inst_Input1 inst)) (\<lambda>a.
           bind_err (at (inst_Input2 inst)) (\<lambda>b.
           bind_err (at (inst_Output inst)) (\<lambda>y.
             Inr (True, addNot (addBinary ''$or'' m2 name [a] [b] tmp) inst_name tmp [y])))))
        else if inst_Type inst = ''PRIM_XOR'' then
          bind_err (at (inst_Input1 inst)) (\<lambda>a.
          bind_err (at (inst_Input2 inst)) (\<lambda>b.
          bind_err (at (inst_Output inst)) (\<lambda>y.
            Inr (True, addBinary ''$xor'' m inst_name [a] [b] [y]))))
        else if inst_Type inst = ''PRIM_XNOR'' then
          bind_err (at (inst_Input1 inst)) (\<lambda>a.
          bind_err (at (inst_Input2 inst)) (\<lambda>b.
          bind_err (at (inst_Output inst)) (\<lambda>y.
            Inr (True, addBinary ''$xnor'' m inst_name [a] [b] [y]))))
        else if inst_Type inst = ''PRIM_INV'' then
          bind_err (at (inst_Input inst)) (\<lambda>a.
          bind_err (at (inst_Output inst)) (\<lambda>y.
            Inr (True, addNot m inst_name [a] [y])))
        else if inst_Type inst = ''PRIM_MUX'' then
          bind_err (at (inst_Input1 inst)) (\<lambda>a.
          bind_err (at (inst_Input2 inst)) (\<lambda>b.
          bind_err (at (inst_Control inst)) (\<lambda>s.
          bind_err (at (inst_Output inst)) (\<lambda>y.
            Inr (True, addMux m inst_name [a] [b] [s] [y])))))
        else if inst_Type inst = ''PRIM_TRI'' then
          bind_err (at (inst_Input inst)) (\<lambda>b.
          bind_err (at (inst_Control inst)) (\<lambda>s.
          bind_err (at (inst_Output inst)) (\<lambda>y.
            Inr (True, addMux m inst_name [SigConst Sz] [b] [s] [y]))))
        else if inst_Type inst = ''PRIM_FADD'' then
          (let (n0, m0) = NEW_ID m; a_plus_b = SigSpec_of_wire n0 2; m1 = addWire m0 n0 2 in
           bind_err (net_or_new_wire at m1 (inst_Output inst)) (\<lambda>ym.
           bind_err ((case inst_Cout inst of None \<Rightarrow> Inr (fst ym)
                      | Some c \<Rightarrow> bind_err (at (inst_Cout inst)) (\<lambda>co. Inr (fst ym @ [co])))) (\<lambda>y.
           bind_err (at (inst_Input1 inst)) (\<lambda>a.
           bind_err (at (inst_Input2 inst)) (\<lambda>b.
           bind_err (at (inst_Cin inst)) (\<lambda>c.
             (let (n1, m2) = NEW_ID (snd ym);
                 m3 = addBinary ''$add'' m2 n1 [a] [b] a_plus_b
             in Inr (True, addBinary ''$add'' m3 inst_name a_plus_b [c] y))))))))
        else if inst_Type inst = ''PRIM_DFFRS'' then import_dffrs_cells db at m inst inst_name
        else if inst_Type inst = ''PRIM_DLATCHRS'' then
          bind_err (IsGnd db (inst_Set inst)) (\<lambda>set_gnd.
          bind_err ((if set_gnd then IsGnd db (inst_Reset inst) else Inr False)) (\<lambda>reset_gnd.
            if set_gnd \<and> reset_gnd then
              bind_err (at (inst_Control inst)) (\<lambda>e.
              bind_err (at (inst_Input inst)) (\<lambda>dd.
              bind_err (at (inst_Output inst)) (\<lambda>q.
                Inr (True, addDlatch m inst_name [e] [dd] [q]))))
            else
              bind_err (at (inst_Control inst)) (\<lambda>e.
              bind_err (at (inst_Set inst)) (\<lambda>s.
              bind_err (at (inst_Reset inst)) (\<lambda>r.
              bind_err (at (inst_Input inst)) (\<lambda>dd.
              bind_err (at (inst_Output inst)) (\<lambda>q.
                Inr (True, addDlatchsr m inst_name [e] [s] [r] [dd] [q]))))))))
        else operators m inst inst_name)"

subsection \<open>Merging the past-value registers (lines 645-710)\<close>

text \<open>
  Modelled from the spec: the kernel calls of \<open>merge_past_ffs\<close> (kernel/rtlil.h,
  kernel/rtlil.cc and kernel/sigtools.h, not under src/). \<open>getPort\<close> and \<open>getParam\<close>
  look a name up with \<open>at\<close>, which throws for a name that is absent; a signal becomes a
  \<open>SigBit\<close> under the assertion that it has one bit; a constant is true when one of its
  bits is one. A cell pointer is the cell it points to: a cell is never changed here, only
  taken out of the module, and \<open>Module::remove\<close> asserts that the module has a cell of
  that name.
\<close>

definition getPort :: "cell \<Rightarrow> string \<Rightarrow> error + sigspec" where
  "getPort c portname =
     (case map_of (cell_ports c) portname of None \<Rightarrow> Inl MapOutOfRange | Some s \<Rightarrow> Inr s)"

definition getParam :: "cell \<Rightarrow> string \<Rightarrow> error + rconst" where
  "getParam c paramname =
     (case map_of (cell_parameters c) paramname of None \<Rightarrow> Inl MapOutOfRange | Some v \<Rightarrow> Inr v)"

definition as_bit :: "sigspec \<Rightarrow> error + sigbit" where
  "as_bit s = (case s of [b] \<Rightarrow> Inr b | _ \<Rightarrow> Inl AssertionFailed)"

fun as_bool :: "rconst \<Rightarrow> bool" where
  "as_bool (Const_bits bs) = (S1 \<in> set bs)"
| "as_bool (Const_int i) = (i mod 2 ^ 32 \<noteq> 0)"
| "as_bool (Const_str s) = (filter (\<lambda>c. c \<noteq> CHR 0x00) s \<noteq> [])"

definition module_connect :: "rmodule \<Rightarrow> sigspec \<Rightarrow> sigspec \<Rightarrow> rmodule" where
  "module_connect m lhs rhs = m\<lparr>mod_conns := mod_conns m @ [(lhs, rhs)]\<rparr>"

definition module_remove :: "rmodule \<Rightarrow> cell \<Rightarrow> error + rmodule" where
  "module_remove m c =
     (if cell_name c \<in> set (map cell_name (mod_cells m))
      then Inr (m\<lparr>mod_cells := filter (\<lambda>x. cell_name x \<noteq> cell_name c) (mod_cells m)\<rparr>)
      else Inl AssertionFailed)"

text \<open>
  Modelled from the spec: \<open>SigMap\<close> (kernel/sigtools.h), a union-find over signal bits,
  is the function that takes a bit to the representative of its class. \<open>add\<close> joins the
  classes of its two bits when one of the two representatives is a wire bit; the
  representative of the joined class is the one of the second bit, unless the one of the
  first bit is a constant, which is then promoted.
\<close>

type_synonym sigmap = "sigbit \<Rightarrow> sigbit"

fun is_const_bit :: "sigbit \<Rightarrow> bool" where
  "is_const_bit (SigConst _) = True"
| "is_const_bit (SigWire _ _) = False"

definition sigmap_add :: "sigmap \<Rightarrow> sigbit \<Rightarrow> sigbit \<Rightarrow> sigmap" where
  "sigmap_add sm bit_from bit_to =
     (let bf = sm bit_from; bt = sm bit_to
      in if is_const_bit bf \<and> is_const_bit bt then sm
         else (\<lambda>b. if sm b = bf \<or> sm b = bt then (if is_const_bit bf then bf else bt)
                    else sm b))"

text \<open>
  Modelled from the spec: \<open>SigSpec::sort_and_unify\<close> sorts the bits and drops the
  repeated ones. The order of \<open>SigBit\<close> puts the constants first, by value, then the wire
  bits by the name of the wire and then by offset. The kernel compares two names by their
  index in its table of names; the order of the keys below stands for it, and only the order
  of the bits of one wire, which is by offset under any order of names, decides which bits
  are neighbours in a chunk.
\<close>

fun state_code :: "state \<Rightarrow> nat" where
  "state_code S0 = 0"
| "state_code S1 = 1"
| "state_code Sx = 2"
| "state_code Sz = 3"

fun id_key :: "idstring \<Rightarrow> nat \<times> string" where
  "id_key (Id s) = (0, s)"
| "id_key (AutoId n) = (Suc n, [])"

fun sigbit_key :: "sigbit \<Rightarrow> nat \<times> (nat \<times> string) \<times> nat" where
  "sigbit_key (SigConst s) = (0, (0, []), state_code s)"
| "sigbit_key (SigWire w i) = (1, id_key w, i)"

definition sort_and_unify :: "sigspec \<Rightarrow> sigspec" where
  "sort_and_unify bits = remdups_adj (sort_key sigbit_key bits)"

text \<open>
  Modelled from the spec: \<open>SigSpec::chunks\<close> cuts a signal into its maximal runs: a bit
  continues the chunk of the bit before it when both are constants, or when both are bits
  of the same wire and its offset is the next one.
\<close>

fun extends_chunk :: "sigbit \<Rightarrow> sigbit \<Rightarrow> bool" where
  "extends_chunk (SigConst _) (SigConst _) = True"
| "extends_chunk (SigWire w i) (SigWire w' j) = (w = w' \<and> j = Suc i)"
| "extends_chunk _ _ = False"

fun chunks :: "sigspec \<Rightarrow> sigspec list" where
  "chunks [] = []"
| "chunks [b] = [[b]]"
| "chunks (b # b' # bs) =
     (if extends_chunk b b'
      then (case chunks (b' # bs) of [] \<Rightarrow> [[b]] | c # cs \<Rightarrow> (b # c) # cs)
      else [b] # chunks (b' # bs))"

text \<open>
  The loops of \<open>merge_past_ffs_clock\<close>. A pool is the list of its elements in the order
  in which a loop visits them, \<open>erase\<close> takes an element out of it, and the dictionary
  \<open>dbits_db\<close> is the function from a bit to the candidates filed under it. The source
  relies on no order of its hash containers; the order of a pool only decides in which order
  the connections of the registers filed under one bit are appended. The state holds what
  the loops write: the module, the candidates, the signal map and the flag
  \<open>keep_running\<close>.
\<close>

record merge_state =
  ms_module :: rmodule
  ms_candidates :: "cell list"
  ms_sigmap :: sigmap
  ms_keep_running :: bool

fun fold_err :: "('a \<Rightarrow> 's \<Rightarrow> error + 's) \<Rightarrow> 'a list \<Rightarrow> 's \<Rightarrow> error + 's" where
  "fold_err f [] s = Inr s"
| "fold_err f (x # xs) s = bind_err (f x s) (fold_err f xs)"

fun map_err :: "('a \<Rightarrow> error + 'b) \<Rightarrow> 'a list \<Rightarrow> error + 'b list" where
  "map_err f [] = Inr []"
| "map_err f (x # xs) = bind_err (f x) (\<lambda>y. bind_err (map_err f xs) (\<lambda>ys. Inr (y # ys)))"

text \<open>The body of the innermost loop (lines 684-691), for one old register.\<close>

definition replace_ff :: "sigbit \<Rightarrow> cell \<Rightarrow> merge_state \<Rightarrow> error + merge_state" where
  "replace_ff new_q old_ff st =
     bind_err (bind_err (getPort old_ff (pub ''Q'')) as_bit) (\<lambda>old_q.
     bind_err (module_remove (module_connect (ms_module st) [old_q] [new_q]) old_ff) (\<lambda>m.
       Inr (st\<lparr>ms_sigmap := sigmap_add (ms_sigmap st) old_q new_q,
               ms_module := m,
               ms_candidates := removeAll old_ff (ms_candidates st),
               ms_keep_running := True\<rparr>)))"

text \<open>The body of the loop over the chunks (lines 667-692).\<close>

definition process_chunk ::
  "sigbit \<Rightarrow> bool \<Rightarrow> (sigbit \<Rightarrow> cell list) \<Rightarrow> sigspec \<Rightarrow> merge_state
     \<Rightarrow> error + merge_state" where
  "process_chunk clock clock_pol dbits_db sig_d st =
     (case sig_d of
        [] \<Rightarrow> Inr st
      | b # _ \<Rightarrow>
          if is_const_bit b \<or> length sig_d = 1 then Inr st
          else
            (let (wire_id, m1) = NEW_ID (ms_module st);
                 m2 = addWire m1 wire_id (length sig_d);
                 sig_q = SigSpec_of_wire wire_id (length sig_d);
                 (ff_id, m3) = NEW_ID m2;
                 m4 = addDff m3 ff_id [clock] sig_d sig_q clock_pol
             in fold_err (\<lambda>i. fold_err (replace_ff (sig_q ! i)) (dbits_db (sig_d ! i)))
                  [0..<length sig_d] (st\<lparr>ms_module := m4\<rparr>)))"

text \<open>One round of the \<open>while\<close> loop (lines 652-693).\<close>

definition merge_iteration :: "sigbit \<Rightarrow> bool \<Rightarrow> merge_state \<Rightarrow> error + merge_state" where
  "merge_iteration clock clock_pol st =
     bind_err (map_err (\<lambda>c. bind_err (getPort c (pub ''D''))
                                (\<lambda>s. as_bit (map (ms_sigmap st) s)))
                 (ms_candidates st)) (\<lambda>dbits.
       let filed = zip dbits (ms_candidates st);
           dbits_db = (\<lambda>b. map snd (filter (\<lambda>p. fst p = b) filed))
       in fold_err (process_chunk clock clock_pol dbits_db) (chunks (sort_and_unify dbits))
            (st\<lparr>ms_keep_running := False\<rparr>))"

text \<open>
  The \<open>while\<close> loop, with fuel: \<open>None\<close> is a loop that has not stopped when the fuel is
  used up.
\<close>

fun merge_loop ::
  "nat \<Rightarrow> sigbit \<Rightarrow> bool \<Rightarrow> merge_state \<Rightarrow> (error + merge_state) option" where
  "merge_loop 0 clock clock_pol st = None"
| "merge_loop (Suc fuel) clock clock_pol st =
     (if ms_keep_running st
      then (case merge_iteration clock clock_pol st of
              Inl e \<Rightarrow> Some (Inl e)
            | Inr st' \<Rightarrow> merge_loop fuel clock clock_pol st')
      else Some (Inr st))"

text \<open>
  \<open>merge_past_ffs_clock\<close> takes its candidates by reference: it returns the module and
  the candidates that are left.
\<close>

definition merge_past_ffs_clock ::
  "nat \<Rightarrow> rmodule \<Rightarrow> cell list \<Rightarrow> sigbit \<Rightarrow> bool \<Rightarrow> (error + rmodule \<times> cell list) option" where
  "merge_past_ffs_clock fuel m candidates clock clock_pol =
     (case merge_loop fuel clock clock_pol
             \<lparr>ms_module = m, ms_candidates = candidates, ms_sigmap = (\<lambda>b. b),
              ms_keep_running = True\<rparr> of
        None \<Rightarrow> None
      | Some (Inl e) \<Rightarrow> Some (Inl e)
      | Some (Inr st) \<Rightarrow> Some (Inr (ms_module st, ms_candidates st)))"

text \<open>
  \<open>merge_past_ffs\<close> files the candidates under their clock bit and polarity and runs
  \<open>merge_past_ffs_clock\<close> on a copy of each group (\<open>for (auto it : database)\<close>), so its own
  pool is not written to and only the module comes back. The groups are visited in the order
  of the list of their keys without repetitions.
\<close>

definition ff_clock_key :: "cell \<Rightarrow> error + sigbit \<times> bool" where
  "ff_clock_key c =
     bind_err (bind_err (getPort c (pub ''CLK'')) as_bit) (\<lambda>clock.
     bind_err (getParam c (pub ''CLK_POLARITY'')) (\<lambda>p. Inr (clock, as_bool p)))"

fun merge_groups ::
  "nat \<Rightarrow> ((sigbit \<times> bool) \<times> cell) list \<Rightarrow> (sigbit \<times> bool) list \<Rightarrow> rmodule
     \<Rightarrow> (error + rmodule) option" where
  "merge_groups fuel filed [] m = Some (Inr m)"
| "merge_groups fuel filed (k # ks) m =
     (case merge_past_ffs_clock fuel m (map snd (filter (\<lambda>p. fst p = k) filed)) (fst k) (snd k) of
        None \<Rightarrow> None
      | Some (Inl e) \<Rightarrow> Some (Inl e)
      | Some (Inr (m', _)) \<Rightarrow> merge_groups fuel filed ks m')"

definition merge_past_ffs :: "nat \<Rightarrow> rmodule \<Rightarrow> cell list \<Rightarrow> (error + rmodule) option" where
  "merge_past_ffs fuel m candidates =
     (case map_err ff_clock_key candidates of
        Inl e \<Rightarrow> Some (Inl e)
      | Inr keys \<Rightarrow> merge_groups fuel (zip keys candidates) (remdups keys) m)"

subsection \<open>Memories (lines 809-874 and 1075-1124)\<close>















subsection \<open>import_netlist and the import loop (lines 712-726 and 2111-2119)\<close>

text \<open>
  Modelled from the spec: \<open>RTLIL::Design\<close> with \<open>has\<close> and \<open>add\<close> (kernel/rtlil.h,
  not under src/), the container that holds one module per completed import, added by name.
  It is a list of named modules here, which can hold two modules of one name: that the
  import never makes it do so is a statement to prove, not a property of the type.
\<close>

type_synonym design = "(string \<times> rmodule) list"

definition design_has :: "design \<Rightarrow> string \<Rightarrow> bool" where
  "design_has design name = (name \<in> set (map fst design))"

definition design_add :: "design \<Rightarrow> string \<Rightarrow> rmodule \<Rightarrow> design" where
  "design_add design name m = design @ [(name, m)]"

definition netlist_module_name :: "Netlist \<Rightarrow> string" where
  "netlist_module_name nl =
     (if nl_IsOperator nl then ''$verific$'' @ nl_OwnerName nl else escape_id (nl_OwnerName nl))"

text \<open>
  The head of \<open>import_netlist\<close>. What follows in the source (lines 728-1277) fills the
  new module and inserts the view of every hierarchical instance into \<open>nl_todo\<close>; it
  neither reads nor writes the design and is the parameter \<open>contents\<close>, which gives the
  filled module and the inserted views of a netlist, or the error that stops the import.
  \<open>nl_todo\<close> is a \<open>std::set\<close> of pointers, kept as a sorted list without duplicates.
\<close>

definition import_netlist ::
  "(netlist_ptr \<Rightarrow> error + rmodule \<times> netlist_ptr list) \<Rightarrow> database \<Rightarrow> design \<Rightarrow> netlist_ptr
     \<Rightarrow> netlist_ptr list \<Rightarrow> error + design \<times> netlist_ptr list" where
  "import_netlist contents db design nl nl_todo =
     (let module_name = netlist_module_name (db_netlists db nl) in
      if design_has design module_name then
        (if \<not> nl_IsOperator (db_netlists db nl)
         then Inl (Redefinition (nl_OwnerName (db_netlists db nl)))
         else Inr (design, nl_todo))
      else
        (case contents nl of
           Inl e \<Rightarrow> Inl e
         | Inr (m, views) \<Rightarrow>
             Inr (design_add design module_name m, fold insort_insert views nl_todo)))"

text \<open>
  The loop of \<open>VerificPass::execute\<close> that drains \<open>nl_todo\<close>. It runs as long as
  imports keep inserting netlists, so it takes fuel; \<open>None\<close> means that the fuel ran out.
\<close>

fun import_loop ::
  "nat \<Rightarrow> (netlist_ptr \<Rightarrow> error + rmodule \<times> netlist_ptr list) \<Rightarrow> database \<Rightarrow> design
     \<Rightarrow> netlist_ptr list \<Rightarrow> netlist_ptr list \<Rightarrow> (error + design) option" where
  "import_loop 0 contents db design nl_todo nl_done = None"
| "import_loop (Suc fuel) contents db design nl_todo nl_done =
     (case nl_todo of
        [] \<Rightarrow> Some (Inr design)
      | nl # _ \<Rightarrow>
          if nl \<notin> set nl_done then
            (case import_netlist contents db design nl nl_todo of
               Inl e \<Rightarrow> Some (Inl e)
             | Inr (design', nl_todo') \<Rightarrow>
                 import_loop fuel contents db design' (removeAll nl nl_todo')
                   (insort_insert nl nl_done))
          else
            import_loop fuel contents db design (removeAll nl nl_todo)
              (insort_insert nl nl_done))"

subsection \<open>VerificSvaPP (lines 1371-1483)\<close>

text \<open>
  The preprocessing pass is the one component that would write to the source graph, so
  the graph is a state here: the store and the first unused net and instance pointers,
  from which new objects are taken. \<open>Disconnect\<close> and \<open>Connect\<close> on an input pin of an
  instance rewrite that pin and move the port reference from the old net to the new one.
  \<open>Netlist::SvaBinary\<close> belongs to Verific: it adds a binary operator instance of the given
  kind on the two nets and returns the new net that the instance drives.
\<close>

record graph =
  g_db :: database
  g_next_net :: net_ptr
  g_next_inst :: inst_ptr

definition update_inst :: "database \<Rightarrow> inst_ptr \<Rightarrow> (Instance \<Rightarrow> Instance) \<Rightarrow> database" where
  "update_inst db ip f = db\<lparr>db_insts := (db_insts db)(ip := f (db_insts db ip))\<rparr>"

definition update_net :: "database \<Rightarrow> net_ptr \<Rightarrow> (Net \<Rightarrow> Net) \<Rightarrow> database" where
  "update_net db np f = db\<lparr>db_nets := (db_nets db)(np := f (db_nets db np))\<rparr>"

definition drop_portref :: "database \<Rightarrow> net_ptr option \<Rightarrow> inst_ptr \<Rightarrow> database" where
  "drop_portref db old ip =
     (case old of
        None \<Rightarrow> db
      | Some n \<Rightarrow> update_net db n (\<lambda>net. net\<lparr>net_PortRefs := remove1 ip (net_PortRefs net)\<rparr>))"

definition add_portref :: "database \<Rightarrow> net_ptr \<Rightarrow> inst_ptr \<Rightarrow> database" where
  "add_portref db n ip = update_net db n (\<lambda>net. net\<lparr>net_PortRefs := net_PortRefs net @ [ip]\<rparr>)"

definition reconnect_Input :: "graph \<Rightarrow> inst_ptr \<Rightarrow> net_ptr \<Rightarrow> graph" where
  "reconnect_Input g ip new_net =
     g\<lparr>g_db := update_inst
                 (add_portref (drop_portref (g_db g) (inst_Input (db_insts (g_db g) ip)) ip)
                    new_net ip)
                 ip (\<lambda>i. i\<lparr>inst_Input := Some new_net\<rparr>)\<rparr>"

definition reconnect_Input2 :: "graph \<Rightarrow> inst_ptr \<Rightarrow> net_ptr \<Rightarrow> graph" where
  "reconnect_Input2 g ip new_net =
     g\<lparr>g_db := update_inst
                 (add_portref (drop_portref (g_db g) (inst_Input2 (db_insts (g_db g) ip)) ip)
                    new_net ip)
                 ip (\<lambda>i. i\<lparr>inst_Input2 := Some new_net\<rparr>)\<rparr>"

definition SvaBinary ::
  "graph \<Rightarrow> netlist_ptr \<Rightarrow> prim \<Rightarrow> net_ptr option \<Rightarrow> net_ptr option \<Rightarrow> graph \<times> net_ptr option" where
  "SvaBinary g netlist ty in1 in2 =
     (let ip = g_next_inst g; np = g_next_net g;
          inst = \<lparr>inst_Type = ty, inst_Name = [], inst_Owner = netlist, inst_View = netlist,
                  inst_IsUserDeclared = False, inst_Input = None, inst_Input1 = in1,
                  inst_Input2 = in2, inst_Control = None, inst_Clock = None, inst_Set = None,
                  inst_Reset = None, inst_Output = Some np, inst_Cin = None, inst_Cout = None,
                  inst_InputBits = [], inst_Input1Bits = [], inst_Input2Bits = [],
                  inst_OutputBits = [], inst_Atts = [], inst_PortRefs = []\<rparr>;
          net = \<lparr>net_Name = [], net_Owner = netlist, net_Drivers = [ip], net_IsGnd = False,
                 net_IsPwr = False, net_IsRamNet = False, net_Size = 1, net_PortRefs = [],
                 net_Ports = []\<rparr>;
          db1 = update_net (update_inst (g_db g) ip (\<lambda>_. inst)) np (\<lambda>_. net);
          db2 = (case in1 of None \<Rightarrow> db1 | Some n \<Rightarrow> add_portref db1 n ip);
          db3 = (case in2 of None \<Rightarrow> db2 | Some n \<Rightarrow> add_portref db2 n ip)
      in (\<lparr>g_db = db3, g_next_net = np + 1, g_next_inst = ip + 1\<rparr>, Some np))"

text \<open>
  The members of the worker; \<open>module\<close> and \<open>netlist\<close> are pointers that \<open>run\<close> sets.
  The worker's \<open>net_to_ast_driver\<close> and \<open>get_ast_input...\<close> are the same code as those of
  \<open>VerificSvaImporter\<close>.
\<close>

record VerificSvaPP =
  pp_module :: "rmodule option"
  pp_netlist :: "netlist_ptr option"
  pp_root :: inst_ptr
  pp_mode_assert :: bool
  pp_mode_assume :: bool
  pp_mode_cover :: bool

definition get_ast_input2 :: "database \<Rightarrow> Instance \<Rightarrow> inst_ptr option" where
  "get_ast_input2 db inst = net_to_ast_driver db (inst_Input2 inst)"

text \<open>
  \<open>impl_to_seq\<close> (lines 1412-1447), the rewrite of a non-overlapped implication under a
  cover property into a concatenation. It recurses through the graph and takes fuel.
\<close>

fun impl_to_seq ::
  "nat \<Rightarrow> VerificSvaPP \<Rightarrow> graph \<Rightarrow> inst_ptr option \<Rightarrow> (graph \<times> net_ptr option) option" where
  "impl_to_seq 0 w g inst_p = None"
| "impl_to_seq (Suc fuel) w g inst_p =
     (case inst_p of
        None \<Rightarrow> Some (g, None)
      | Some ip \<Rightarrow>
         (let inst = db_insts (g_db g) ip in
          if inst_Type inst = ''PRIM_SVA_ASSERT'' \<or> inst_Type inst = ''PRIM_SVA_COVER''
             \<or> inst_Type inst = ''PRIM_SVA_ASSUME'' then
            (case impl_to_seq fuel w g (get_ast_input (g_db g) inst) of
               None \<Rightarrow> None
             | Some (g1, None) \<Rightarrow> Some (g1, None)
             | Some (g1, Some new_net) \<Rightarrow> Some (reconnect_Input g1 ip new_net, None))
          else if inst_Type inst = ''PRIM_SVA_AT'' then
            (case impl_to_seq fuel w g (get_ast_input2 (g_db g) inst) of
               None \<Rightarrow> None
             | Some (g1, None) \<Rightarrow> Some (g1, None)
             | Some (g1, Some new_net) \<Rightarrow> Some (reconnect_Input2 g1 ip new_net, None))
          else if inst_Type inst = ''PRIM_SVA_NON_OVERLAPPED_IMPLICATION'' \<and> pp_mode_cover w then
            (case impl_to_seq fuel w g (get_ast_input1 (g_db g) inst) of
               None \<Rightarrow> None
             | Some (g1, new_in1) \<Rightarrow>
            (case impl_to_seq fuel w g1 (get_ast_input2 (g_db g1) (db_insts (g_db g1) ip)) of
               None \<Rightarrow> None
             | Some (g2, new_in2) \<Rightarrow>
                 (case pp_netlist w of
                    None \<Rightarrow> None
                  | Some netlist \<Rightarrow>
                      Some (SvaBinary g2 netlist ''PRIM_SVA_SEQ_CONCAT''
                              (case new_in1 of None \<Rightarrow> inst_Input1 (db_insts (g_db g2) ip)
                               | Some n \<Rightarrow> Some n)
                              (case new_in2 of None \<Rightarrow> inst_Input2 (db_insts (g_db g2) ip)
                               | Some n \<Rightarrow> Some n)))))
          else Some (g, None)))"

text \<open>
  \<open>run\<close> (lines 1449-1455) sets the two pointers of the worker; the call of
  \<open>impl_to_seq\<close> is commented out. The three entry points make a worker for the root
  instance, run it and drop it; what they leave behind is the source graph and the module.
\<close>

definition VerificSvaPP_run ::
  "graph \<Rightarrow> rmodule \<Rightarrow> VerificSvaPP \<Rightarrow> graph \<times> rmodule \<times> VerificSvaPP" where
  "VerificSvaPP_run g importer_module w =
     (g, importer_module,
      w\<lparr>pp_module := Some importer_module,
        pp_netlist := Some (inst_Owner (db_insts (g_db g) (pp_root w)))\<rparr>)"

definition new_svapp :: "inst_ptr \<Rightarrow> VerificSvaPP" where
  "new_svapp inst =
     \<lparr>pp_module = None, pp_netlist = None, pp_root = inst, pp_mode_assert = False,
      pp_mode_assume = False, pp_mode_cover = False\<rparr>"

definition svapp_assert :: "graph \<Rightarrow> rmodule \<Rightarrow> inst_ptr \<Rightarrow> graph \<times> rmodule" where
  "svapp_assert g importer_module inst =
     (let (g', m', w) = VerificSvaPP_run g importer_module ((new_svapp inst)\<lparr>pp_mode_assert := True\<rparr>)
      in (g', m'))"

definition svapp_assume :: "graph \<Rightarrow> rmodule \<Rightarrow> inst_ptr \<Rightarrow> graph \<times> rmodule" where
  "svapp_assume g importer_module inst =
     (let (g', m', w) = VerificSvaPP_run g importer_module ((new_svapp inst)\<lparr>pp_mode_assume := True\<rparr>)
      in (g', m'))"

definition svapp_cover :: "graph \<Rightarrow> rmodule \<Rightarrow> inst_ptr \<Rightarrow> graph \<times> rmodule" where
  "svapp_cover g importer_module inst =
     (let (g', m', w) = VerificSvaPP_run g importer_module ((new_svapp inst)\<lparr>pp_mode_cover := True\<rparr>)
      in (g', m'))"

subsection \<open>VerificExtNets (lines 1732-1813)\<close>

text \<open>The decimal digits of \<open>%d\<close> in \<open>stringf("___extnets_%d", portname_cnt++)\<close>.\<close>

function string_of_nat :: "nat \<Rightarrow> string" where
  "string_of_nat n =
     (if n < 10 then [char_of (48 + n)]
      else string_of_nat (n div 10) @ [char_of (48 + n mod 10)])"
  by pat_completeness auto
termination
  by (relation "measure id") auto

record VerificExtNets =
  portname_cnt :: nat
  ext_verbose :: bool
  net_level_up :: "net_ptr \<rightharpoonup> net_ptr"

definition update_netlist :: "database \<Rightarrow> netlist_ptr \<Rightarrow> (Netlist \<Rightarrow> Netlist) \<Rightarrow> database" where
  "update_netlist db nl f = db\<lparr>db_netlists := (db_netlists db)(nl := f (db_netlists db nl))\<rparr>"

text \<open>The netlist one level up: the owner of the last instance that refers to \<open>nl\<close>.\<close>

definition up_netlist :: "database \<Rightarrow> netlist_ptr \<Rightarrow> netlist_ptr" where
  "up_netlist db nl = inst_Owner (db_insts db (last (nl_References (db_netlists db nl))))"

definition NumOfRefs :: "database \<Rightarrow> netlist_ptr \<Rightarrow> nat" where
  "NumOfRefs db nl = length (nl_References (db_netlists db nl))"

text \<open>
  \<open>get_net_level_up\<close> (lines 1740-1768). For a net that is not in the map yet and whose
  owner has exactly one reference, it adds an output port to the owner, connects the net
  to it, makes a new net of the same name in the netlist one level up and connects the
  new port of the referring instance to it.
\<close>

definition get_net_level_up ::
  "graph \<times> VerificExtNets \<Rightarrow> net_ptr \<Rightarrow> (graph \<times> VerificExtNets) \<times> net_ptr" where
  "get_net_level_up st net =
     (let (g, x) = st in
      case net_level_up x net of
        Some up \<Rightarrow> (st, up)
      | None \<Rightarrow>
         (let db = g_db g; nl = net_Owner (db_nets db net) in
          if NumOfRefs db nl \<noteq> 1 then (st, net)
          else
            (let up_inst = last (nl_References (db_netlists db nl));
                 up_nl = inst_Owner (db_insts db up_inst);
                 name = ''___extnets_'' @ string_of_nat (portname_cnt x);
                 db1 = update_netlist db nl (\<lambda>n. n\<lparr>nl_Ports := nl_Ports n @ [name]\<rparr>);
                 db2 = update_net db1 net (\<lambda>n. n\<lparr>net_Ports := net_Ports n @ [name]\<rparr>);
                 new_net = g_next_net g;
                 db3 = update_net db2 new_net
                         (\<lambda>_. \<lparr>net_Name = name, net_Owner = up_nl, net_Drivers = [],
                               net_IsGnd = False, net_IsPwr = False, net_IsRamNet = False,
                               net_Size = 1, net_PortRefs = [up_inst], net_Ports = []\<rparr>);
                 db4 = update_netlist db3 up_nl (\<lambda>n. n\<lparr>nl_Nets := nl_Nets n @ [new_net]\<rparr>);
                 db5 = update_inst db4 up_inst
                         (\<lambda>i. i\<lparr>inst_PortRefs := inst_PortRefs i @ [(name, new_net)]\<rparr>)
             in ((g\<lparr>g_db := db5, g_next_net := new_net + 1\<rparr>,
                  x\<lparr>portname_cnt := portname_cnt x + 1,
                    net_level_up := (net_level_up x)(net \<mapsto> new_net)\<rparr>),
                 new_net))))"

text \<open>
  The \<open>while\<close> loop of \<open>run\<close> (lines 1793-1801), which climbs from the net until it is
  no longer external to \<open>nl\<close> or cannot be lifted. It takes fuel.
\<close>

fun resolve_net ::
  "nat \<Rightarrow> netlist_ptr \<Rightarrow> graph \<times> VerificExtNets \<Rightarrow> net_ptr
     \<Rightarrow> ((graph \<times> VerificExtNets) \<times> net_ptr) option" where
  "resolve_net 0 nl st net = None"
| "resolve_net (Suc fuel) nl st net =
     (if \<not> IsExternalTo (db_nets (g_db (fst st)) net) nl then Some (st, net)
      else (let (st', newnet) = get_net_level_up st net in
            if newnet = net then Some (st', net)
            else resolve_net fuel nl st' newnet))"

text \<open>
  The loop over the port references of one instance (lines 1782-1806). It runs over the
  references that the instance has when its turn comes: a reference that
  \<open>get_net_level_up\<close> adds to an instance of \<open>nl\<close> while the loop runs is to a new
  net of \<open>nl\<close>, which line 1787 passes over.
\<close>

fun fix_portrefs ::
  "nat \<Rightarrow> netlist_ptr \<Rightarrow> inst_ptr \<Rightarrow> (string \<times> net_ptr) list
     \<Rightarrow> (graph \<times> VerificExtNets) \<times> (inst_ptr \<times> string \<times> net_ptr) list
     \<Rightarrow> ((graph \<times> VerificExtNets) \<times> (inst_ptr \<times> string \<times> net_ptr) list) option" where
  "fix_portrefs fuel nl inst [] acc = Some acc"
| "fix_portrefs fuel nl inst ((port, net) # prs) (st, todo_connect) =
     (if \<not> IsExternalTo (db_nets (g_db (fst st)) net) nl
      then fix_portrefs fuel nl inst prs (st, todo_connect)
      else (case resolve_net fuel nl st net of
              None \<Rightarrow> None
            | Some (st', net') \<Rightarrow>
                fix_portrefs fuel nl inst prs (st', todo_connect @ [(inst, port, net')])))"

text \<open>\<open>Disconnect(port)\<close> followed by \<open>Connect(port, net)\<close> on an instance (lines 1808-1811).\<close>

definition connect_todo :: "graph \<Rightarrow> inst_ptr \<times> string \<times> net_ptr \<Rightarrow> graph" where
  "connect_todo g entry =
     (let (ip, port, net) = entry in
      g\<lparr>g_db := update_inst (g_db g) ip
                  (\<lambda>i. i\<lparr>inst_PortRefs :=
                           filter (\<lambda>pr. fst pr \<noteq> port) (inst_PortRefs i) @ [(port, net)]\<rparr>)\<rparr>)"

fun fold_option :: "('a \<Rightarrow> 's \<Rightarrow> 's option) \<Rightarrow> 'a list \<Rightarrow> 's \<Rightarrow> 's option" where
  "fold_option f [] s = Some s"
| "fold_option f (x # xs) s = (case f x s of None \<Rightarrow> None | Some s' \<Rightarrow> fold_option f xs s')"

text \<open>\<open>run\<close> (lines 1770-1812): the views of the instances first, then the port
  references of every instance, then the collected connections.\<close>

fun extnets_run ::
  "nat \<Rightarrow> netlist_ptr \<Rightarrow> graph \<times> VerificExtNets \<Rightarrow> (graph \<times> VerificExtNets) option" where
  "extnets_run 0 nl st = None"
| "extnets_run (Suc fuel) nl st =
     (case fold_option
             (\<lambda>inst s. extnets_run fuel (inst_View (db_insts (g_db (fst s)) inst)) s)
             (nl_Instances (db_netlists (g_db (fst st)) nl)) st of
        None \<Rightarrow> None
      | Some st1 \<Rightarrow>
          (case fold_option
                  (\<lambda>inst acc. fix_portrefs fuel nl inst
                                 (inst_PortRefs (db_insts (g_db (fst (fst acc))) inst)) acc)
                  (nl_Instances (db_netlists (g_db (fst st1)) nl)) (st1, []) of
             None \<Rightarrow> None
           | Some ((g, x), todo_connect) \<Rightarrow> Some (fold (\<lambda>e g'. connect_todo g' e) todo_connect g, x)))"

text \<open>
  A netlist has a unique instantiation path of \<open>d\<close> levels up to \<open>target\<close> when \<open>d\<close>
  steps to the netlist one level up, each from a netlist with exactly one reference, lead
  from it to \<open>target\<close>.
\<close>

fun unique_path :: "database \<Rightarrow> netlist_ptr \<Rightarrow> nat \<Rightarrow> netlist_ptr \<Rightarrow> bool" where
  "unique_path db nl 0 target = (nl = target)"
| "unique_path db nl (Suc d) target =
     (nl \<noteq> target \<and> NumOfRefs db nl = 1 \<and> unique_path db (up_netlist db nl) d target)"

text \<open>
  What the map \<open>net_level_up\<close> holds between calls: a net in it has an owner with exactly
  one reference and is mapped to a net that was made later and is owned by the netlist one
  level up.
\<close>

definition extnets_wf :: "graph \<times> VerificExtNets \<Rightarrow> bool" where
  "extnets_wf st =
     (\<forall>n up. net_level_up (snd st) n = Some up \<longrightarrow>
        n < up \<and> up < g_next_net (fst st)
        \<and> NumOfRefs (g_db (fst st)) (net_Owner (db_nets (g_db (fst st)) n)) = 1
        \<and> net_Owner (db_nets (g_db (fst st)) up)
            = up_netlist (g_db (fst st)) (net_Owner (db_nets (g_db (fst st)) n)))"

text \<open>Two stores with the same hierarchy: the same references of every netlist and the
  same owner of every instance.\<close>

definition same_hierarchy :: "database \<Rightarrow> database \<Rightarrow> bool" where
  "same_hierarchy db db' =
     ((\<forall>nl. nl_References (db_netlists db' nl) = nl_References (db_netlists db nl))
      \<and> (\<forall>i. inst_Owner (db_insts db' i) = inst_Owner (db_insts db i)))"

subsection \<open>A small design for the examples\<close>

text \<open>
  One netlist (number 0) with a clock, its inverse, two signals and the nodes of a few
  properties: \<open>@(posedge clk) sig |=> sig2\<close> under an assertion, the concatenations
  \<open>sig ##[1:3] sig2\<close> and \<open>sig ##2 sig2\<close>, an edge operator on the inverted clock and an
  OR gate.
\<close>

definition mk_netlist :: "string \<Rightarrow> bool \<Rightarrow> inst_ptr list \<Rightarrow> inst_ptr list \<Rightarrow> Netlist" where
  "mk_netlist name operator refs instances =
     \<lparr>nl_OwnerName = name, nl_IsOperator = operator, nl_IsBlackBox = False,
      nl_References = refs, nl_Instances = instances, nl_Ports = [], nl_Nets = []\<rparr>"

definition mk_net :: "string \<Rightarrow> inst_ptr list \<Rightarrow> Net" where
  "mk_net name drivers =
     \<lparr>net_Name = name, net_Owner = 0, net_Drivers = drivers, net_IsGnd = False,
      net_IsPwr = False, net_IsRamNet = False, net_Size = 1, net_PortRefs = [],
      net_Ports = []\<rparr>"

definition mk_inst ::
  "prim \<Rightarrow> string \<Rightarrow> net_ptr option \<Rightarrow> net_ptr option \<Rightarrow> net_ptr option \<Rightarrow> net_ptr option
     \<Rightarrow> (string \<times> string) list \<Rightarrow> Instance" where
  "mk_inst ty name inp inp1 inp2 out atts =
     \<lparr>inst_Type = ty, inst_Name = name, inst_Owner = 0, inst_View = 0,
      inst_IsUserDeclared = False,
      inst_Input = inp, inst_Input1 = inp1, inst_Input2 = inp2, inst_Control = None,
      inst_Clock = None, inst_Set = None, inst_Reset = None, inst_Output = out,
      inst_Cin = None, inst_Cout = None, inst_InputBits = [], inst_Input1Bits = [],
      inst_Input2Bits = [], inst_OutputBits = [], inst_Atts = atts, inst_PortRefs = []\<rparr>"

definition ex_nets :: "Net list" where
  "ex_nets =
     [mk_net ''clk'' [], mk_net ''sig'' [], mk_net ''sig2'' [], mk_net ''nclk'' [1],
      mk_net ''n4'' [0], mk_net ''n5'' [2], mk_net ''n6'' [3], mk_net ''n7'' [5],
      mk_net ''n8'' [6], mk_net ''n9'' [7], mk_net ''n10'' [8],
      (mk_net ''gnd'' [])\<lparr>net_IsGnd := True\<rparr>, mk_net ''rst'' [], mk_net ''d'' [],
      mk_net ''q'' [], mk_net ''pre'' []]"

definition ex_insts :: "Instance list" where
  "ex_insts =
     [mk_inst ''PRIM_SVA_POSEDGE'' ''i0'' (Some 0) None None (Some 4) [],
      mk_inst ''PRIM_INV'' ''i1'' (Some 0) None None (Some 3) [],
      mk_inst ''PRIM_SVA_NON_OVERLAPPED_IMPLICATION'' ''i2'' None (Some 1) (Some 2) (Some 5) [],
      mk_inst ''PRIM_SVA_AT'' ''i3'' None (Some 4) (Some 5) (Some 6) [],
      mk_inst ''PRIM_SVA_ASSERT'' ''i4'' (Some 6) None None None [],
      mk_inst ''PRIM_SVA_POSEDGE'' ''i5'' (Some 3) None None (Some 7) [],
      mk_inst ''PRIM_SVA_SEQ_CONCAT'' ''i6'' None (Some 1) (Some 2) (Some 8)
        [(''sva:low'', ''1''), (''sva:high'', ''3'')],
      mk_inst ''PRIM_OR'' ''i7'' None (Some 1) (Some 2) (Some 9) [],
      mk_inst ''PRIM_SVA_SEQ_CONCAT'' ''i8'' None (Some 1) (Some 2) (Some 10)
        [(''sva:low'', ''2''), (''sva:high'', ''2'')]]"

definition ex_db :: database where
  "ex_db = \<lparr>db_nets = (\<lambda>p. if p < length ex_nets then ex_nets ! p else mk_net [] []),
            db_insts = (\<lambda>p. if p < length ex_insts then ex_insts ! p
                             else mk_inst [] [] None None None None []),
            db_netlists = (\<lambda>p. mk_netlist ''top'' False [] [])\<rparr>"

definition ex_net_map :: "net_ptr \<rightharpoonup> sigbit" where
  "ex_net_map = map_of [(0, SigWire (Id (pub ''clk'')) 0), (1, SigWire (Id (pub ''sig'')) 0),
                        (2, SigWire (Id (pub ''sig2'')) 0), (3, SigWire (Id (pub ''nclk'')) 0),
                        (12, SigWire (Id (pub ''rst'')) 0), (13, SigWire (Id (pub ''d'')) 0),
                        (14, SigWire (Id (pub ''q'')) 0), (15, SigWire (Id (pub ''pre'')) 0)]"

definition ex_importer :: VerificImporter where
  "ex_importer = \<lparr>imp_netlist = 0, imp_net_map = ex_net_map, mode_gates = False,
                  mode_keep = False, mode_nosva = False, mode_nosvapp = False,
                  mode_names = False, verbose = False\<rparr>"

text \<open>A flip-flop primitive on \<open>clk\<close> from \<open>d\<close> to \<open>q\<close> with the given set and reset
  nets; net 11 is the constant zero.\<close>

definition ex_dffrs :: "net_ptr \<Rightarrow> net_ptr \<Rightarrow> Instance" where
  "ex_dffrs s r =
     (mk_inst ''PRIM_DFFRS'' ''ff'' (Some 13) None None (Some 14) [])
       \<lparr>inst_Clock := Some 0, inst_Set := Some s, inst_Reset := Some r\<rparr>"

definition empty_module :: rmodule where
  "empty_module = \<lparr>mod_wires = [], mod_cells = [], mod_memories = [], mod_conns = [],
                   mod_autoidx = 0\<rparr>"







text \<open>
  A hierarchy of three netlists: \<open>top\<close> (0) instantiates \<open>sub\<close> (1) twice and the
  operator \<open>add_8\<close> (2) once, \<open>sub\<close> instantiates the operator once.
\<close>

definition ex_hier_db :: database where
  "ex_hier_db =
     \<lparr>db_nets = (\<lambda>p. mk_net [] []),
      db_insts = (\<lambda>p. mk_inst [] [] None None None None []),
      db_netlists = (\<lambda>p. if p = 0 then mk_netlist ''top'' False [] [0, 1, 2]
                          else if p = 1 then mk_netlist ''sub'' False [0, 1] [3]
                          else mk_netlist ''add_8'' True [2, 3] [])\<rparr>"

definition ex_contents :: "netlist_ptr \<Rightarrow> error + rmodule \<times> netlist_ptr list" where
  "ex_contents nl =
     (if nl = 0 then Inr (empty_module, [1, 1, 2])
      else if nl = 1 then Inr (empty_module, [2])
      else Inr (empty_module, []))"

definition ex_design :: design where
  "ex_design = [(escape_id ''top'', empty_module), (escape_id ''sub'', empty_module),
                (''$verific$add_8'', empty_module)]"

definition ex_graph :: graph where
  "ex_graph = \<lparr>g_db = ex_db, g_next_net = length ex_nets, g_next_inst = length ex_insts\<rparr>"

text \<open>
  A hierarchy for the external nets: \<open>top\<close> (0) has the instance 0 of \<open>mid\<close> (1), which
  has the instance 1 of \<open>leaf\<close> (2); \<open>twice\<close> (3) is instantiated by the instances 2 and 3
  of \<open>top\<close>. Net 0 belongs to \<open>leaf\<close>, net 1 to \<open>twice\<close>; the gate 4 of \<open>top\<close> refers to
  both.
\<close>

definition ex_ext_db :: database where
  "ex_ext_db =
     \<lparr>db_nets = (\<lambda>p. if p = 0 then (mk_net ''deep'' [])\<lparr>net_Owner := 2\<rparr>
                      else (mk_net ''shared'' [])\<lparr>net_Owner := 3\<rparr>),
      db_insts = (\<lambda>p. if p = 0 then (mk_inst [] ''u_mid'' None None None None [])
                                       \<lparr>inst_Owner := 0, inst_View := 1\<rparr>
                       else if p = 1 then (mk_inst [] ''u_leaf'' None None None None [])
                                       \<lparr>inst_Owner := 1, inst_View := 2\<rparr>
                       else if p = 2 \<or> p = 3 then (mk_inst [] ''u_twice'' None None None None [])
                                       \<lparr>inst_Owner := 0, inst_View := 3\<rparr>
                       else (mk_inst ''PRIM_AND'' ''g'' None None None None [])
                                       \<lparr>inst_View := 4, inst_PortRefs := [(''a'', 0), (''b'', 1)]\<rparr>),
      db_netlists = (\<lambda>p. if p = 0 then mk_netlist ''top'' False [] [0, 2, 3, 4]
                          else if p = 1 then mk_netlist ''mid'' False [0] [1]
                          else if p = 2 then mk_netlist ''leaf'' False [1] []
                          else if p = 3 then mk_netlist ''twice'' False [2, 3] []
                          else mk_netlist ''and'' True [4] [])\<rparr>"

definition ex_ext_state :: "graph \<times> VerificExtNets" where
  "ex_ext_state =
     (\<lparr>g_db = ex_ext_db, g_next_net = 2, g_next_inst = 5\<rparr>,
      \<lparr>portname_cnt = 0, ext_verbose = False, net_level_up = Map.empty\<rparr>)"

text \<open>The same hierarchy when the gate refers to the net of \<open>leaf\<close> only.\<close>

definition ex_ext_unique :: "graph \<times> VerificExtNets" where
  "ex_ext_unique =
     (\<lparr>g_db = update_inst ex_ext_db 4 (\<lambda>i. i\<lparr>inst_PortRefs := [(''a'', 0)]\<rparr>),
       g_next_net = 2, g_next_inst = 5\<rparr>,
      \<lparr>portname_cnt = 0, ext_verbose = False, net_level_up = Map.empty\<rparr>)"

text \<open>The levels of the netlists of this hierarchy, the operator lowest and \<open>top\<close> highest.\<close>

definition ex_ext_level :: "netlist_ptr \<Rightarrow> nat" where
  "ex_ext_level nl = (if nl = 0 then 3 else if nl = 1 then 2 else if nl = 2 \<or> nl = 3 then 1 else 0)"

text \<open>
  Past-value registers on the clock \<open>clk\<close>: two that sample the same bit \<open>a[0]\<close>, and
  three that sample the three bits of \<open>b\<close>, filed out of order.
\<close>

definition mk_past_ff :: "nat \<Rightarrow> sigbit \<Rightarrow> sigbit \<Rightarrow> cell" where
  "mk_past_ff n d q =
     \<lparr>cell_name = AutoId n, cell_type = ''$dff'',
      cell_parameters = [(pub ''CLK_POLARITY'', Const_bool True), (pub ''WIDTH'', Const_int 1)],
      cell_ports = [(pub ''CLK'', [SigWire (Id (pub ''clk'')) 0]), (pub ''D'', [d]), (pub ''Q'', [q])]\<rparr>"

definition ex_same_input_ffs :: "cell list" where
  "ex_same_input_ffs =
     [mk_past_ff 0 (SigWire (Id (pub ''a'')) 0) (SigWire (Id (pub ''p'')) 0),
      mk_past_ff 1 (SigWire (Id (pub ''a'')) 0) (SigWire (Id (pub ''r'')) 0)]"

definition ex_same_input_module :: rmodule where
  "ex_same_input_module = empty_module\<lparr>mod_cells := ex_same_input_ffs, mod_autoidx := 2\<rparr>"

definition ex_bus_ffs :: "cell list" where
  "ex_bus_ffs =
     [mk_past_ff 0 (SigWire (Id (pub ''b'')) 0) (SigWire (Id (pub ''x'')) 0),
      mk_past_ff 1 (SigWire (Id (pub ''b'')) 1) (SigWire (Id (pub ''y'')) 0),
      mk_past_ff 2 (SigWire (Id (pub ''b'')) 2) (SigWire (Id (pub ''z'')) 0)]"

definition ex_bus_pool :: "cell list" where
  "ex_bus_pool = [ex_bus_ffs ! 2, ex_bus_ffs ! 0, ex_bus_ffs ! 1]"

definition ex_bus_module :: rmodule where
  "ex_bus_module = empty_module\<lparr>mod_cells := ex_bus_ffs, mod_autoidx := 3\<rparr>"

definition ex_clk :: sigbit where
  "ex_clk = SigWire (Id (pub ''clk'')) 0"

definition ex_bus_q :: "nat \<Rightarrow> sigbit" where
  "ex_bus_q i = SigWire (Id (pub ([''x'', ''y'', ''z''] ! i))) 0"

text \<open>
  The three registers on \<open>b\<close> together with one that samples \<open>b[7]\<close>, which has no
  neighbour among the sampled bits.
\<close>

definition ex_lone_ff :: cell where
  "ex_lone_ff = mk_past_ff 3 (SigWire (Id (pub ''b'')) 7) (SigWire (Id (pub ''v'')) 0)"

definition ex_mixed_pool :: "cell list" where
  "ex_mixed_pool = [ex_bus_ffs ! 2, ex_lone_ff, ex_bus_ffs ! 0, ex_bus_ffs ! 1]"

definition ex_mixed_module :: rmodule where
  "ex_mixed_module = empty_module\<lparr>mod_cells := ex_bus_ffs @ [ex_lone_ff], mod_autoidx := 4\<rparr>"

definition ex_mixed_merged :: rmodule where
  "ex_mixed_merged =
     empty_module
       \<lparr>mod_wires := [\<lparr>wire_name = AutoId 4, wire_width = 3, wire_attributes = []\<rparr>],
        mod_cells :=
          [ex_lone_ff,
           \<lparr>cell_name = AutoId 5, cell_type = ''$dff'',
            cell_parameters = [(pub ''CLK_POLARITY'', Const_bool True), (pub ''WIDTH'', Const_int 3)],
            cell_ports = [(pub ''CLK'', [ex_clk]),
                          (pub ''D'', map (SigWire (Id (pub ''b''))) [0, 1, 2]),
                          (pub ''Q'', map (SigWire (AutoId 4)) [0, 1, 2])]\<rparr>],
        mod_conns := map (\<lambda>i. ([ex_bus_q i], [SigWire (AutoId 4) i])) [0, 1, 2],
        mod_autoidx := 6\<rparr>"

definition ex_worker :: VerificSvaImporter where
  "ex_worker = (new_worker ex_importer)\<lparr>sva_mode_assert := True\<rparr>"

definition ex_assert_module :: rmodule where
  "ex_assert_module =
     (case sva_run 3 ex_db (\<lambda>m name. name) ex_worker empty_module 4 of
        Some (Inr m) \<Rightarrow> m
      | _ \<Rightarrow> empty_module)"

subsection \<open>Observers used in the statements\<close>

definition count_cells :: "string \<Rightarrow> rmodule \<Rightarrow> nat" where
  "count_cells ty m = length (filter (\<lambda>c. cell_type c = ty) (mod_cells m))"

fun get_port :: "(string \<times> sigspec) list \<Rightarrow> string \<Rightarrow> sigspec option" where
  "get_port [] key = None"
| "get_port ((k, v) # ps) key = (if k = key then Some v else get_port ps key)"

fun get_attribute :: "(string \<times> rconst) list \<Rightarrow> string \<Rightarrow> rconst option" where
  "get_attribute [] key = None"
| "get_attribute ((k, v) # ps) key = (if k = key then Some v else get_attribute ps key)"

definition wire_attribute :: "rmodule \<Rightarrow> idstring \<Rightarrow> string \<Rightarrow> rconst option" where
  "wire_attribute m name key =
     (case filter (\<lambda>w. wire_name w = name) (mod_wires m) of
        [] \<Rightarrow> None
      | w # _ \<Rightarrow> get_attribute (wire_attributes w) key)"

text \<open>
  A register of a delay-element step: a \<open>$dff\<close> cell on the worker's clock and polarity
  with the given one-bit input and output, whose output wire is initialised to zero.
\<close>

definition is_register ::
  "VerificSvaImporter \<Rightarrow> rmodule \<Rightarrow> cell \<Rightarrow> sigbit \<Rightarrow> sigbit \<Rightarrow> bool" where
  "is_register w m c d q =
     (cell_type c = ''$dff''
      \<and> get_port (cell_ports c) (pub ''CLK'') = Some [sva_clock w]
      \<and> get_attribute (cell_parameters c) (pub ''CLK_POLARITY'')
          = Some (Const_bool (sva_clock_posedge w))
      \<and> get_port (cell_ports c) (pub ''D'') = Some [d]
      \<and> get_port (cell_ports c) (pub ''Q'') = Some [q]
      \<and> (case q of
            SigWire name k \<Rightarrow> k = 0 \<and> wire_attribute m name (pub ''init'') = Some (Const_bits [S0])
          | SigConst _ \<Rightarrow> False))"

text \<open>
  One delay-element step from \<open>st\<close> to \<open>st'\<close>: the cells of \<open>st\<close> are kept, exactly
  two registers are among the new ones, the first from the old active signal to the new
  one, the second to the new enabled signal, and the sequence is one cycle longer (in the
  32 bits of \<open>length\<close>).
\<close>

definition delay_element_step ::
  "VerificSvaImporter \<Rightarrow> sequence_t \<times> rmodule \<Rightarrow> sequence_t \<times> rmodule \<Rightarrow> bool" where
  "delay_element_step w st st' =
     (let new_cells = drop (length (mod_cells (snd st))) (mod_cells (snd st'));
          regs = filter (\<lambda>c. cell_type c = ''$dff'') new_cells
      in take (length (mod_cells (snd st))) (mod_cells (snd st')) = mod_cells (snd st)
       \<and> seq_length (fst st') = signed_take_bit 31 (seq_length (fst st) + 1)
       \<and> length regs = 2
       \<and> is_register w (snd st') (regs ! 0) (sig_a (fst st)) (sig_a (fst st'))
       \<and> (\<exists>d. is_register w (snd st') (regs ! 1) d (sig_en (fst st'))
              \<and> (sva_disable_iff w = SigConst S0 \<longrightarrow> d = sig_en (fst st))))"

definition constraint_cell :: "string \<Rightarrow> idstring \<Rightarrow> sequence_t \<Rightarrow> cell" where
  "constraint_cell kind name seq =
     \<lparr>cell_name = name, cell_type = kind, cell_parameters = [],
      cell_ports = [(pub ''A'', [sig_a seq]), (pub ''EN'', [sig_en seq])]\<rparr>"

text \<open>A result that is neither of the two unsupported-range errors.\<close>

definition no_range :: "(error + 'a) option \<Rightarrow> bool" where
  "no_range r =
     (r \<noteq> Some (Inl UnsupportedConcatRange) \<and> r \<noteq> Some (Inl UnsupportedRepeatRange))"

text \<open>
  A single-bit past-value register on a clock and polarity, with its input and output bit.
\<close>

definition past_ff :: "sigbit \<Rightarrow> bool \<Rightarrow> sigbit \<Rightarrow> sigbit \<Rightarrow> cell \<Rightarrow> bool" where
  "past_ff clock clock_pol d q c =
     (getPort c (pub ''CLK'') = Inr [clock]
      \<and> (case getParam c (pub ''CLK_POLARITY'') of
            Inr p \<Rightarrow> as_bool p = clock_pol
          | Inl _ \<Rightarrow> False)
      \<and> getPort c (pub ''D'') = Inr [d]
      \<and> getPort c (pub ''Q'') = Inr [q])"

text \<open>The names that \<open>NEW_ID\<close> has made for the cells of a module lie below its counter.\<close>

definition fresh_names :: "rmodule \<Rightarrow> bool" where
  "fresh_names m =
     list_all (\<lambda>c. case cell_name c of AutoId n \<Rightarrow> n < mod_autoidx m | Id _ \<Rightarrow> True)
       (mod_cells m)"

text \<open>
  The module \<open>m\<close> after the registers \<open>ffs\<close>, which sample the bits \<open>k\<close>, \<open>k + 1\<close>, ... of
  the wire \<open>w\<close> and drive the bits \<open>q 0\<close>, \<open>q 1\<close>, ..., have been merged: one new wire
  and one new register as wide as there are registers, the old registers gone, and the old
  output of the register on bit \<open>i\<close> connected to bit \<open>i\<close> of the new wire.
\<close>

definition merged_module ::
  "rmodule \<Rightarrow> cell list \<Rightarrow> sigbit \<Rightarrow> bool \<Rightarrow> idstring \<Rightarrow> nat \<Rightarrow> (nat \<Rightarrow> sigbit) \<Rightarrow> rmodule" where
  "merged_module m ffs clock clock_pol w k q =
     m\<lparr>mod_wires := mod_wires m @
          [\<lparr>wire_name = AutoId (mod_autoidx m), wire_width = length ffs, wire_attributes = []\<rparr>],
       mod_cells := filter (\<lambda>c. cell_name c \<notin> set (map cell_name ffs)) (mod_cells m) @
          [\<lparr>cell_name = AutoId (mod_autoidx m + 1), cell_type = ''$dff'',
            cell_parameters = [(pub ''CLK_POLARITY'', Const_bool clock_pol),
                               (pub ''WIDTH'', Const_int (int (length ffs)))],
            cell_ports = [(pub ''CLK'', [clock]),
                          (pub ''D'', map (SigWire w) [k..<k + length ffs]),
                          (pub ''Q'', map (SigWire (AutoId (mod_autoidx m))) [0..<length ffs])]\<rparr>],
       mod_conns := mod_conns m @
          map (\<lambda>i. ([q i], [SigWire (AutoId (mod_autoidx m)) i])) [0..<length ffs],
       mod_autoidx := mod_autoidx m + 2\<rparr>"

text \<open>
  A chunk that line 669 does not skip: bits of a wire, two or more. A set of bits in which no
  two are neighbours on a wire has no such chunk.
\<close>

definition mergeable :: "sigspec \<Rightarrow> bool" where
  "mergeable c = (case c of [] \<Rightarrow> False | b # _ \<Rightarrow> \<not> is_const_bit b \<and> length c \<noteq> 1)"

definition no_neighbours :: "sigbit set \<Rightarrow> bool" where
  "no_neighbours S =
     (\<forall>b\<in>S. case b of SigWire w i \<Rightarrow> SigWire w (Suc i) \<notin> S | SigConst _ \<Rightarrow> True)"

text \<open>The bit that a single-bit register samples.\<close>

definition ff_d :: "cell \<Rightarrow> sigbit" where
  "ff_d c = (case getPort c (pub ''D'') of Inr [b] \<Rightarrow> b | _ \<Rightarrow> SigConst Sx)"

text \<open>A cell whose name, if \<open>NEW_ID\<close> made it, lies below the counter \<open>a\<close>.\<close>

definition name_below :: "nat \<Rightarrow> cell \<Rightarrow> bool" where
  "name_below a c = (case cell_name c of AutoId n \<Rightarrow> n < a | Id _ \<Rightarrow> True)"

text \<open>
  What a run keeps of a cell \<open>c\<close>: its name stays below the counter, and when it is not a
  candidate any more, no cell of the module has its name.
\<close>

definition kept :: "cell \<Rightarrow> merge_state \<Rightarrow> bool" where
  "kept c st =
     (name_below (mod_autoidx (ms_module st)) c
      \<and> (c \<in> set (ms_candidates st)
          \<or> cell_name c \<notin> cell_name ` set (mod_cells (ms_module st))))"

text \<open>
  What holds of the graph whenever the resolver looks at it: the map is well formed and
  every port reference of an instance is to a net that has been made.
\<close>

definition extnets_inv :: "graph \<times> VerificExtNets \<Rightarrow> bool" where
  "extnets_inv st =
     (extnets_wf st
      \<and> (\<forall>i. \<forall>pr\<in>set (inst_PortRefs (db_insts (g_db (fst st)) i)).
            snd pr < g_next_net (fst st)))"

text \<open>
  A hierarchy with levels: no level is above \<open>height\<close>, an instance is owned by the
  netlist that lists it and its view lies below that netlist, and the netlist one level up
  from a netlist with exactly one reference lies above it.
\<close>

definition hierarchy_levels :: "database \<Rightarrow> (netlist_ptr \<Rightarrow> nat) \<Rightarrow> nat \<Rightarrow> bool" where
  "hierarchy_levels db level height =
     ((\<forall>nl. level nl \<le> height)
      \<and> (\<forall>nl. \<forall>i\<in>set (nl_Instances (db_netlists db nl)).
            inst_Owner (db_insts db i) = nl \<and> level (inst_View (db_insts db i)) < level nl)
      \<and> (\<forall>nl. NumOfRefs db nl = 1 \<longrightarrow> level nl < level (up_netlist db nl)))"

text \<open>No port reference of an instance of \<open>nl\<close> is to a net outside \<open>nl\<close>.\<close>

definition no_external :: "database \<Rightarrow> netlist_ptr \<Rightarrow> bool" where
  "no_external db nl =
     (\<forall>i\<in>set (nl_Instances (db_netlists db nl)).
        \<forall>pr\<in>set (inst_PortRefs (db_insts db i)). \<not> IsExternalTo (db_nets db (snd pr)) nl)"

text \<open>
  How the graph \<open>st'\<close> may differ from an earlier graph \<open>st\<close> when nets have been lifted
  in between: the hierarchy, the instances of the netlists and their views are the same,
  the nets that were there have kept their owners, an instance selected by \<open>P\<close> has only
  gained port references, each to a new net of the netlist that owns the instance, a net
  whose owner does not have exactly one reference is as it was, and so are the ports of a
  netlist that does not have exactly one reference.
\<close>

definition lifted ::
  "(inst_ptr \<Rightarrow> bool) \<Rightarrow> graph \<times> VerificExtNets \<Rightarrow> graph \<times> VerificExtNets \<Rightarrow> bool" where
  "lifted P st st' =
     (same_hierarchy (g_db (fst st)) (g_db (fst st'))
      \<and> (\<forall>nl. nl_Instances (db_netlists (g_db (fst st')) nl)
                = nl_Instances (db_netlists (g_db (fst st)) nl))
      \<and> (\<forall>i. inst_View (db_insts (g_db (fst st')) i) = inst_View (db_insts (g_db (fst st)) i))
      \<and> g_next_net (fst st) \<le> g_next_net (fst st')
      \<and> (\<forall>n<g_next_net (fst st).
            net_Owner (db_nets (g_db (fst st')) n) = net_Owner (db_nets (g_db (fst st)) n))
      \<and> (\<forall>i. P i \<longrightarrow>
            (\<exists>added. inst_PortRefs (db_insts (g_db (fst st')) i)
                        = inst_PortRefs (db_insts (g_db (fst st)) i) @ added
                    \<and> (\<forall>pr\<in>set added.
                          snd pr < g_next_net (fst st')
                          \<and> net_Owner (db_nets (g_db (fst st')) (snd pr))
                              = inst_Owner (db_insts (g_db (fst st)) i))))
      \<and> (\<forall>n<g_next_net (fst st).
            NumOfRefs (g_db (fst st)) (net_Owner (db_nets (g_db (fst st)) n)) \<noteq> 1 \<longrightarrow>
            db_nets (g_db (fst st')) n = db_nets (g_db (fst st)) n)
      \<and> (\<forall>nl. NumOfRefs (g_db (fst st)) nl \<noteq> 1 \<longrightarrow>
            nl_Ports (db_netlists (g_db (fst st')) nl) = nl_Ports (db_netlists (g_db (fst st)) nl)))"


section \<open>Properties\<close>

subsection \<open>Evaluating the example design\<close>

lemmas ex_defs = ex_db_def ex_nets_def ex_insts_def mk_net_def mk_inst_def ex_net_map_def
  ex_importer_def ex_worker_def new_worker_def empty_module_def

lemmas graph_defs = net_to_ast_driver_def IsMultipleDriven_def Driver_def
  verific_sva_prims_def verific_psl_prims_def net_map_at_def IsExternalTo_def
  get_ast_input_def get_ast_input1_def sva_clock_node_def VerificClockEdge_def
  clock_edge_found_def sva_prepare_def sva_disable_def

lemmas builder_defs = sequence_cond_def sequence_enable_def sequence_ff_def sva_emit_def
  NEW_ID_def module_And_def module_Mux_def addAnd_def addMux_def addDff_def addAssert_def
  addAssume_def addCover_def addConstraint_def addCell_def addWire_def wire_set_attribute_def

subsection \<open>The delay-element step\<close>

lemma get_attribute_set [simp]: "get_attribute (set_attribute atts key v) key = Some v"
  by (induction atts) auto

lemma wire_attribute_fresh_aux:
  "(case filter (\<lambda>w. wire_name w = name)
           (map (\<lambda>w. if wire_name w = name
                      then w\<lparr>wire_attributes := set_attribute (wire_attributes w) key v\<rparr> else w)
              (ws @ [\<lparr>wire_name = name, wire_width = wd, wire_attributes = []\<rparr>])) of
      [] \<Rightarrow> None
    | w # _ \<Rightarrow> get_attribute (wire_attributes w) key) = Some v"
  by (induction ws) auto

lemma wire_attribute_new:
  "wire_attribute (wire_set_attribute (addWire m name wd) name key v) name key = Some v"
  using wire_attribute_fresh_aux [where name=name and ws="mod_wires m" and wd=wd and key=key and v=v]
  by (simp add: wire_attribute_def wire_set_attribute_def addWire_def)

lemma filter_map_other:
  "name' \<noteq> name \<Longrightarrow>
   filter (\<lambda>w. wire_name w = name)
     (map (\<lambda>w. if wire_name w = name'
                then w\<lparr>wire_attributes := set_attribute (wire_attributes w) key v\<rparr> else w) ws)
   = filter (\<lambda>w. wire_name w = name) ws"
  by (induction ws) auto

lemma wire_attribute_other:
  "name' \<noteq> name \<Longrightarrow>
   wire_attribute (wire_set_attribute m name' key v) name key' = wire_attribute m name key'"
  "name' \<noteq> name \<Longrightarrow> wire_attribute (addWire m name' wd) name key' = wire_attribute m name key'"
  by (simp_all add: wire_attribute_def wire_set_attribute_def addWire_def filter_map_other)

lemma wire_attribute_frame:
  "wire_attribute (m\<lparr>mod_autoidx := k\<rparr>) name key = wire_attribute m name key"
  "wire_attribute (addCell m c) name key = wire_attribute m name key"
  by (simp_all add: wire_attribute_def addCell_def)

lemma builder_frame:
  "mod_cells (addWire m name wd) = mod_cells m"
  "mod_cells (wire_set_attribute m name key v) = mod_cells m"
  "mod_cells (addCell m c) = mod_cells m @ [c]"
  "mod_autoidx (addWire m name wd) = mod_autoidx m"
  "mod_autoidx (wire_set_attribute m name key v) = mod_autoidx m"
  "mod_autoidx (addCell m c) = mod_autoidx m"
  by (simp_all add: addWire_def wire_set_attribute_def addCell_def)

lemma sequence_ff_is_step: "delay_element_step w st (sequence_ff w st)"
  by (cases st)
     (simp add: delay_element_step_def sequence_ff_def NEW_ID_def module_Mux_def addMux_def
      addDff_def is_register_def builder_frame wire_attribute_new wire_attribute_other
      wire_attribute_frame Let_def pub_def Const_bool_def split: prod.splits)

lemma count_cells_addCell:
  "count_cells ty (addCell m c) = count_cells ty m + (if cell_type c = ty then 1 else 0)"
  by (simp add: count_cells_def addCell_def)

lemma count_cells_frame [simp]:
  "count_cells ty (m\<lparr>mod_autoidx := k\<rparr>) = count_cells ty m"
  "count_cells ty (addWire m name wd) = count_cells ty m"
  "count_cells ty (wire_set_attribute m name key v) = count_cells ty m"
  by (simp_all add: count_cells_def addWire_def wire_set_attribute_def)

lemma sequence_ff_length:
  "seq_length (fst (sequence_ff w st)) = signed_take_bit 31 (seq_length (fst st) + 1)"
  by (simp add: sequence_ff_def NEW_ID_def module_Mux_def Let_def split: prod.splits)

lemma sequence_ff_dffs:
  "count_cells ''$dff'' (snd (sequence_ff w st)) = count_cells ''$dff'' (snd st) + 2"
  by (simp add: sequence_ff_def NEW_ID_def module_Mux_def addMux_def addDff_def
      count_cells_addCell Let_def split: prod.splits)

lemma signed_take_bit_Suc_step:
  "signed_take_bit 31 (signed_take_bit 31 k + 1) = signed_take_bit 31 (k + (1::int))"
  using signed_take_bit_add [of 31 k 1] by simp

lemma sequence_ff_pow_length:
  "0 < N \<Longrightarrow>
   seq_length (fst ((sequence_ff w ^^ N) st)) = signed_take_bit 31 (seq_length (fst st) + int N)"
proof (induction N)
  case 0
  then show ?case by simp
next
  case (Suc N)
  show ?case
  proof (cases "N = 0")
    case True
    then show ?thesis by (simp add: sequence_ff_length)
  next
    case False
    then have IH: "seq_length (fst ((sequence_ff w ^^ N) st))
                   = signed_take_bit 31 (seq_length (fst st) + int N)"
      using Suc.IH by simp
    have "seq_length (fst ((sequence_ff w ^^ Suc N) st))
          = signed_take_bit 31 (seq_length (fst ((sequence_ff w ^^ N) st)) + 1)"
      by (simp add: sequence_ff_length)
    also have "\<dots> = signed_take_bit 31 (signed_take_bit 31 (seq_length (fst st) + int N) + 1)"
      by (simp only: IH)
    also have "\<dots> = signed_take_bit 31 ((seq_length (fst st) + int N) + 1)"
      by (rule signed_take_bit_Suc_step)
    also have "\<dots> = signed_take_bit 31 (seq_length (fst st) + int (Suc N))"
      by (simp add: ac_simps)
    finally show ?thesis .
  qed
qed

lemma sequence_ff_pow_dffs:
  "count_cells ''$dff'' (snd ((sequence_ff w ^^ N) st)) = count_cells ''$dff'' (snd st) + 2 * N"
  by (induction N) (simp_all add: sequence_ff_dffs)

subsection \<open>The sequence compiler\<close>

lemma bind_res_Inr:
  "bind_res r f = Some (Inr y) \<Longrightarrow> \<exists>x. r = Some (Inr x) \<and> f x = Some (Inr y)"
  by (auto simp add: bind_res_def split: option.splits sum.splits)

lemma atoi_att_range:
  assumes "atoi_att inst key = Inr (int N)"
  shows "N < 2 ^ 31"
proof -
  from assms obtain v where "atoi v = int N"
    by (auto simp add: atoi_att_def split: option.splits)
  moreover have "atoi v < 2 ^ 31"
    unfolding atoi_def using signed_take_bit_int_less_exp [of 31 "strtol v"] by simp
  ultimately have "int N < 2 ^ 31" by simp
  then show ?thesis by simp
qed

lemma parse_non_overlapped:
  assumes "net_to_ast_driver db n = Some ip"
    and "inst_Type (db_insts db ip) = ''PRIM_SVA_NON_OVERLAPPED_IMPLICATION''"
  shows "parse_sequence (Suc fuel) db w st n =
         bind_res (parse_sequence fuel db w st (inst_Input1 (db_insts db ip)))
           (\<lambda>st1. parse_sequence fuel db w (sequence_ff w (sequence_enable st1))
                     (inst_Input2 (db_insts db ip)))"
  using assms by (simp add: Let_def)

lemma parse_concat:
  assumes "net_to_ast_driver db n = Some ip"
    and "inst_Type (db_insts db ip) = ''PRIM_SVA_SEQ_CONCAT''"
    and "atoi_att (db_insts db ip) ''sva:low'' = Inr (int N)"
  shows "parse_sequence (Suc fuel) db w st n =
         bind_res (parse_sequence fuel db w st (inst_Input1 (db_insts db ip)))
           (\<lambda>st1. parse_sequence fuel db w ((sequence_ff w ^^ N) st1)
                     (inst_Input2 (db_insts db ip)))"
  using assms by (simp add: Let_def)

lemma sva_emit_cells:
  "\<exists>name. mod_cells (sva_emit db uq w root st) =
     mod_cells (snd st)
     @ (if sva_mode_assert w then [constraint_cell ''$assert'' name (fst st)] else [])
     @ (if sva_mode_assume w then [constraint_cell ''$assume'' name (fst st)] else [])
     @ (if sva_mode_cover w then [constraint_cell ''$cover'' name (fst st)] else [])"
  by (cases st)
     (auto simp add: sva_emit_def addAssert_def addAssume_def addCover_def addConstraint_def
        addCell_def NEW_ID_def constraint_cell_def Let_def split: prod.splits)

lemma bind_res_returns:
  assumes "\<exists>r. x = Some r" and "\<And>y. \<exists>r. f y = Some r"
  shows "\<exists>r. bind_res x f = Some r"
  using assms by (auto simp add: bind_res_def split: option.splits sum.splits)

lemma for_loop_returns:
  assumes "\<And>s. \<exists>r. body s = Some r"
  shows "\<exists>r. for_loop k body st = Some r"
proof (induction k arbitrary: st)
  case 0
  show ?case by simp
next
  case (Suc k)
  show ?case
    unfolding for_loop.simps
    by (rule bind_res_returns) (use assms Suc in auto)
qed

lemma parse_sequence_returns:
  "seq_bounded d db n \<Longrightarrow> d \<le> fuel \<Longrightarrow> \<exists>r. parse_sequence fuel db w st n = Some r"
proof (induction fuel arbitrary: d st n)
  case 0
  then show ?case by simp
next
  case (Suc fuel)
  from Suc.prems obtain d' where d: "d = Suc d'" and d': "d' \<le> fuel"
    by (cases d) simp_all
  show ?case
  proof (cases "net_to_ast_driver db n")
    case None
    then show ?thesis by (simp split: sum.splits)
  next
    case (Some ip)
    let ?inst = "db_insts db ip"
    let ?ty = "inst_Type ?inst"
    have bounded: "list_all (seq_bounded d' db) (seq_operands ?inst)"
      using Suc.prems(1) Some unfolding d by simp
    consider (two) "?ty \<in> set [''PRIM_SVA_OVERLAPPED_IMPLICATION'',
                               ''PRIM_SVA_NON_OVERLAPPED_IMPLICATION'', ''PRIM_SVA_SEQ_CONCAT'',
                               ''PRIM_IMPL'', ''PRIM_SUFFIX_IMPL'']"
      | (one) "?ty \<in> set [''PRIM_SVA_CONSECUTIVE_REPEAT'', ''PRIM_ALWAYS'']"
      | (other) "?ty \<notin> set [''PRIM_SVA_OVERLAPPED_IMPLICATION'',
                               ''PRIM_SVA_NON_OVERLAPPED_IMPLICATION'', ''PRIM_SVA_SEQ_CONCAT'',
                               ''PRIM_IMPL'', ''PRIM_SUFFIX_IMPL'',
                               ''PRIM_SVA_CONSECUTIVE_REPEAT'', ''PRIM_ALWAYS'']"
      by auto
    then show ?thesis
    proof cases
      case two
      then have "seq_bounded d' db (inst_Input1 ?inst)" and "seq_bounded d' db (inst_Input2 ?inst)"
        using bounded by (simp_all add: seq_operands_def)
      then have r1: "\<And>s. \<exists>r. parse_sequence fuel db w s (inst_Input1 ?inst) = Some r"
        and r2: "\<And>s. \<exists>r. parse_sequence fuel db w s (inst_Input2 ?inst) = Some r"
        using Suc.IH d' by blast+
      from two consider "?ty = ''PRIM_SVA_OVERLAPPED_IMPLICATION''"
        | "?ty = ''PRIM_SVA_NON_OVERLAPPED_IMPLICATION''" | "?ty = ''PRIM_SVA_SEQ_CONCAT''"
        | "?ty = ''PRIM_IMPL''" | "?ty = ''PRIM_SUFFIX_IMPL''"
        by auto
      then show ?thesis
        by cases
          (simp_all add: Some Let_def bind_res_returns r1 r2 split: sum.splits)
    next
      case one
      then have "seq_bounded d' db (inst_Input ?inst)"
        using bounded by (auto simp add: seq_operands_def)
      then have r0: "\<And>s. \<exists>r. parse_sequence fuel db w s (inst_Input ?inst) = Some r"
        using Suc.IH d' by blast
      from one consider "?ty = ''PRIM_SVA_CONSECUTIVE_REPEAT''" | "?ty = ''PRIM_ALWAYS''"
        by auto
      then show ?thesis
        by cases
          (simp_all add: Some Let_def bind_res_returns for_loop_returns r0 split: sum.splits)
    next
      case other
      then show ?thesis by (simp add: Some Let_def)
    qed
  qed
qed

lemma ex_prepare:
  "sva_prepare ex_db ex_worker (db_insts ex_db 4) =
     Inr (ex_worker\<lparr>sva_clock := SigWire (Id (pub ''clk'')) 0, sva_clock_posedge := True\<rparr>, Some 5)"
  by (simp add: ex_defs graph_defs Let_def)

text \<open>
  C2. A non-overlapped implication hands the consequent the state of the antecedent after
  exactly one delay-element step; a concatenation with the fixed delay \<open>N\<close>, the value
  that \<open>atoi\<close> reads, hands its right operand the state of the left one after exactly
  \<open>N\<close> steps; \<open>run\<close> returns when the sequence has its leaves within \<open>d\<close> levels and
  the fuel is \<open>d\<close> or more, and when the sequence is compiled it applies exactly one more
  step and the constraint cell reads the outputs of that step. A step is one pair of clocked
  registers, for the active and the enabled signal, both initialised to zero.
\<close>

theorem sequence_delay_steps:
  "delay_element_step w st (sequence_ff w st)
   \<and> (net_to_ast_driver db na = Some ipa
        \<and> inst_Type (db_insts db ipa) = ''PRIM_SVA_NON_OVERLAPPED_IMPLICATION''
      \<longrightarrow> parse_sequence (Suc fuel) db w st na =
            bind_res (parse_sequence fuel db w st (inst_Input1 (db_insts db ipa)))
              (\<lambda>st1. parse_sequence fuel db w (sequence_ff w (sequence_enable st1))
                        (inst_Input2 (db_insts db ipa))))
   \<and> (net_to_ast_driver db nb = Some ipb
        \<and> inst_Type (db_insts db ipb) = ''PRIM_SVA_SEQ_CONCAT''
        \<and> atoi_att (db_insts db ipb) ''sva:low'' = Inr (int N)
        \<and> atoi_att (db_insts db ipb) ''sva:high'' = Inr (int N)
      \<longrightarrow> parse_sequence (Suc fuel) db w st nb =
            bind_res (parse_sequence fuel db w st (inst_Input1 (db_insts db ipb)))
              (\<lambda>st1. parse_sequence fuel db w ((sequence_ff w ^^ N) st1)
                        (inst_Input2 (db_insts db ipb)))
          \<and> N < 2 ^ 31
          \<and> (0 < N \<longrightarrow> seq_length (fst ((sequence_ff w ^^ N) st))
                          = signed_take_bit 31 (seq_length (fst st) + int N))
          \<and> count_cells ''$dff'' (snd ((sequence_ff w ^^ N) st))
              = count_cells ''$dff'' (snd st) + 2 * N)
   \<and> (sva_prepare db wi (db_insts db root) = Inr (w', sn)
        \<and> seq_bounded d db sn \<and> d \<le> fuel'
      \<longrightarrow> (\<exists>r. parse_sequence fuel' db w' (initial_sequence, m) sn = Some r
              \<and> sva_run fuel' db uq wi m root =
                  Some (case r of
                          Inl e \<Rightarrow> Inl e
                        | Inr st1 \<Rightarrow>
                            Inr (sva_emit db uq w' (db_insts db root) (sequence_ff w' st1)))
              \<and> (\<forall>st1. r = Inr st1 \<longrightarrow>
                    (\<exists>name.
                       mod_cells (sva_emit db uq w' (db_insts db root) (sequence_ff w' st1)) =
                         mod_cells (snd (sequence_ff w' st1))
                         @ (if sva_mode_assert w' then
                              [constraint_cell ''$assert'' name (fst (sequence_ff w' st1))] else [])
                         @ (if sva_mode_assume w' then
                              [constraint_cell ''$assume'' name (fst (sequence_ff w' st1))] else [])
                         @ (if sva_mode_cover w' then
                              [constraint_cell ''$cover'' name (fst (sequence_ff w' st1))]
                            else [])))))"
proof (intro conjI impI)
  show "delay_element_step w st (sequence_ff w st)"
    by (rule sequence_ff_is_step)
next
  assume "net_to_ast_driver db na = Some ipa
        \<and> inst_Type (db_insts db ipa) = ''PRIM_SVA_NON_OVERLAPPED_IMPLICATION''"
  then have "net_to_ast_driver db na = Some ipa"
    and "inst_Type (db_insts db ipa) = ''PRIM_SVA_NON_OVERLAPPED_IMPLICATION''"
    by simp_all
  then show "parse_sequence (Suc fuel) db w st na =
            bind_res (parse_sequence fuel db w st (inst_Input1 (db_insts db ipa)))
              (\<lambda>st1. parse_sequence fuel db w (sequence_ff w (sequence_enable st1))
                        (inst_Input2 (db_insts db ipa)))"
    by (rule parse_non_overlapped)
next
  assume "net_to_ast_driver db nb = Some ipb
        \<and> inst_Type (db_insts db ipb) = ''PRIM_SVA_SEQ_CONCAT''
        \<and> atoi_att (db_insts db ipb) ''sva:low'' = Inr (int N)
        \<and> atoi_att (db_insts db ipb) ''sva:high'' = Inr (int N)"
  then have "net_to_ast_driver db nb = Some ipb"
    and "inst_Type (db_insts db ipb) = ''PRIM_SVA_SEQ_CONCAT''"
    and "atoi_att (db_insts db ipb) ''sva:low'' = Inr (int N)"
    by simp_all
  then show "parse_sequence (Suc fuel) db w st nb =
            bind_res (parse_sequence fuel db w st (inst_Input1 (db_insts db ipb)))
              (\<lambda>st1. parse_sequence fuel db w ((sequence_ff w ^^ N) st1)
                        (inst_Input2 (db_insts db ipb)))"
    by (rule parse_concat)
next
  assume "net_to_ast_driver db nb = Some ipb
        \<and> inst_Type (db_insts db ipb) = ''PRIM_SVA_SEQ_CONCAT''
        \<and> atoi_att (db_insts db ipb) ''sva:low'' = Inr (int N)
        \<and> atoi_att (db_insts db ipb) ''sva:high'' = Inr (int N)"
  then have "atoi_att (db_insts db ipb) ''sva:low'' = Inr (int N)"
    by simp
  then show "N < 2 ^ 31"
    by (rule atoi_att_range)
next
  assume "0 < N"
  then show "seq_length (fst ((sequence_ff w ^^ N) st))
             = signed_take_bit 31 (seq_length (fst st) + int N)"
    by (rule sequence_ff_pow_length)
next
  show "count_cells ''$dff'' (snd ((sequence_ff w ^^ N) st))
        = count_cells ''$dff'' (snd st) + 2 * N"
    by (rule sequence_ff_pow_dffs)
next
  assume a: "sva_prepare db wi (db_insts db root) = Inr (w', sn)
        \<and> seq_bounded d db sn \<and> d \<le> fuel'"
  then obtain r where r: "parse_sequence fuel' db w' (initial_sequence, m) sn = Some r"
    using parse_sequence_returns by blast
  have run: "sva_run fuel' db uq wi m root =
                  Some (case r of
                          Inl e \<Rightarrow> Inl e
                        | Inr st1 \<Rightarrow>
                            Inr (sva_emit db uq w' (db_insts db root) (sequence_ff w' st1)))"
    using a r by (simp add: sva_run_def bind_res_def split: sum.splits)
  show "\<exists>r. parse_sequence fuel' db w' (initial_sequence, m) sn = Some r
              \<and> sva_run fuel' db uq wi m root =
                  Some (case r of
                          Inl e \<Rightarrow> Inl e
                        | Inr st1 \<Rightarrow>
                            Inr (sva_emit db uq w' (db_insts db root) (sequence_ff w' st1)))
              \<and> (\<forall>st1. r = Inr st1 \<longrightarrow>
                    (\<exists>name.
                       mod_cells (sva_emit db uq w' (db_insts db root) (sequence_ff w' st1)) =
                         mod_cells (snd (sequence_ff w' st1))
                         @ (if sva_mode_assert w' then
                              [constraint_cell ''$assert'' name (fst (sequence_ff w' st1))] else [])
                         @ (if sva_mode_assume w' then
                              [constraint_cell ''$assume'' name (fst (sequence_ff w' st1))] else [])
                         @ (if sva_mode_cover w' then
                              [constraint_cell ''$cover'' name (fst (sequence_ff w' st1))]
                            else [])))"
    using r run sva_emit_cells by blast
qed

lemma ex_run:
  "sva_run 3 ex_db (\<lambda>m name. name) ex_worker empty_module 4 = Some (Inr ex_assert_module)"
  unfolding ex_assert_module_def
  by (simp add: sva_run_def ex_prepare)
     (simp add: ex_defs graph_defs builder_defs bind_res_def initial_sequence_def
        numeral_3_eq_3 Let_def)

theorem sequence_delay_steps_witness:
  "net_to_ast_driver ex_db (Some 5) = Some 2
   \<and> inst_Type (db_insts ex_db 2) = ''PRIM_SVA_NON_OVERLAPPED_IMPLICATION''
   \<and> net_to_ast_driver ex_db (Some 10) = Some 8
   \<and> inst_Type (db_insts ex_db 8) = ''PRIM_SVA_SEQ_CONCAT''
   \<and> atoi_att (db_insts ex_db 8) ''sva:low'' = Inr 2
   \<and> atoi_att (db_insts ex_db 8) ''sva:high'' = Inr 2
   \<and> sva_prepare ex_db ex_worker (db_insts ex_db 4) =
       Inr (ex_worker\<lparr>sva_clock := SigWire (Id (pub ''clk'')) 0, sva_clock_posedge := True\<rparr>,
            Some 5)
   \<and> seq_bounded 3 ex_db (Some 5)
   \<and> delay_element_step ex_worker (initial_sequence, empty_module)
        (sequence_ff ex_worker (initial_sequence, empty_module))
   \<and> parse_sequence 3 ex_db ex_worker (initial_sequence, empty_module) (Some 5) =
       bind_res (parse_sequence 2 ex_db ex_worker (initial_sequence, empty_module) (Some 1))
         (\<lambda>st1. parse_sequence 2 ex_db ex_worker (sequence_ff ex_worker (sequence_enable st1))
                   (Some 2))
   \<and> parse_sequence 3 ex_db ex_worker (initial_sequence, empty_module) (Some 10) =
       bind_res (parse_sequence 2 ex_db ex_worker (initial_sequence, empty_module) (Some 1))
         (\<lambda>st1. parse_sequence 2 ex_db ex_worker ((sequence_ff ex_worker ^^ 2) st1) (Some 2))
   \<and> seq_length (fst ((sequence_ff ex_worker ^^ 2) (initial_sequence, empty_module))) = 2
   \<and> count_cells ''$dff'' (snd ((sequence_ff ex_worker ^^ 2) (initial_sequence, empty_module))) = 4
   \<and> sva_run 3 ex_db (\<lambda>m name. name) ex_worker empty_module 4 = Some (Inr ex_assert_module)
   \<and> (\<exists>st1 name.
         parse_sequence 3 ex_db
           (ex_worker\<lparr>sva_clock := SigWire (Id (pub ''clk'')) 0, sva_clock_posedge := True\<rparr>)
           (initial_sequence, empty_module) (Some 5) = Some (Inr st1)
       \<and> mod_cells ex_assert_module =
           mod_cells (snd (sequence_ff
             (ex_worker\<lparr>sva_clock := SigWire (Id (pub ''clk'')) 0, sva_clock_posedge := True\<rparr>) st1))
           @ [constraint_cell ''$assert'' name (fst (sequence_ff
               (ex_worker\<lparr>sva_clock := SigWire (Id (pub ''clk'')) 0, sva_clock_posedge := True\<rparr>)
               st1))])"
proof -
  let ?w = "ex_worker\<lparr>sva_clock := SigWire (Id (pub ''clk'')) 0, sva_clock_posedge := True\<rparr>"
  have h1: "net_to_ast_driver ex_db (Some 5) = Some 2"
    by (simp add: ex_defs graph_defs)
  have h2: "inst_Type (db_insts ex_db 2) = ''PRIM_SVA_NON_OVERLAPPED_IMPLICATION''"
    by (simp add: ex_defs)
  have h3: "net_to_ast_driver ex_db (Some 10) = Some 8"
    by (simp add: ex_defs graph_defs)
  have h4: "inst_Type (db_insts ex_db 8) = ''PRIM_SVA_SEQ_CONCAT''"
    by (simp add: ex_defs)
  have h5: "atoi_att (db_insts ex_db 8) ''sva:low'' = Inr (int 2)"
    by (simp add: ex_defs atoi_att_def atoi_def strtol_def isspace_def isdigit_def)
  have h6: "atoi_att (db_insts ex_db 8) ''sva:high'' = Inr (int 2)"
    by (simp add: ex_defs atoi_att_def atoi_def strtol_def isspace_def isdigit_def)
  have pins: "inst_Input1 (db_insts ex_db 2) = Some 1" "inst_Input2 (db_insts ex_db 2) = Some 2"
    "inst_Input1 (db_insts ex_db 8) = Some 1" "inst_Input2 (db_insts ex_db 8) = Some 2"
    by (simp_all add: ex_defs)
  have bounded: "seq_bounded 3 ex_db (Some 5)"
    by (simp add: numeral_3_eq_3 ex_defs graph_defs seq_operands_def)
  have modes: "sva_mode_assert ?w" "\<not> sva_mode_assume ?w" "\<not> sva_mode_cover ?w"
    by (simp_all add: ex_defs)
  have e0: "count_cells ''$dff'' empty_module = 0" "seq_length initial_sequence = 0"
    by (simp_all add: count_cells_def empty_module_def initial_sequence_def)
  note inst = sequence_delay_steps [where w=ex_worker and st="(initial_sequence, empty_module)"
      and db=ex_db and na="Some 5" and ipa=2 and nb="Some 10" and ipb=8 and N=2
      and fuel=2 and fuel'=3 and uq="\<lambda>m name. name" and wi=ex_worker and m=empty_module
      and root=4 and w'="?w" and sn="Some 5" and d=3]
  from inst ex_prepare bounded obtain r where
    r: "parse_sequence 3 ex_db ?w (initial_sequence, empty_module) (Some 5) = Some r"
    and run: "sva_run 3 ex_db (\<lambda>m name. name) ex_worker empty_module 4 =
                Some (case r of
                        Inl e \<Rightarrow> Inl e
                      | Inr st1 \<Rightarrow>
                          Inr (sva_emit ex_db (\<lambda>m name. name) ?w (db_insts ex_db 4)
                                 (sequence_ff ?w st1)))"
    and cells: "\<forall>st1. r = Inr st1 \<longrightarrow>
        (\<exists>name.
           mod_cells (sva_emit ex_db (\<lambda>m name. name) ?w (db_insts ex_db 4) (sequence_ff ?w st1)) =
             mod_cells (snd (sequence_ff ?w st1))
             @ (if sva_mode_assert ?w then
                  [constraint_cell ''$assert'' name (fst (sequence_ff ?w st1))] else [])
             @ (if sva_mode_assume ?w then
                  [constraint_cell ''$assume'' name (fst (sequence_ff ?w st1))] else [])
             @ (if sva_mode_cover ?w then
                  [constraint_cell ''$cover'' name (fst (sequence_ff ?w st1))] else []))"
    by (auto simp del: parse_sequence.simps)
  from run ex_run obtain st1 where st1: "r = Inr st1"
    and out: "ex_assert_module
              = sva_emit ex_db (\<lambda>m name. name) ?w (db_insts ex_db 4) (sequence_ff ?w st1)"
    by (cases r) simp_all
  from cells st1 out modes obtain name where
    "mod_cells ex_assert_module =
       mod_cells (snd (sequence_ff ?w st1))
       @ [constraint_cell ''$assert'' name (fst (sequence_ff ?w st1))]"
    by auto
  with r st1 have final: "\<exists>st1 name.
         parse_sequence 3 ex_db ?w (initial_sequence, empty_module) (Some 5) = Some (Inr st1)
       \<and> mod_cells ex_assert_module =
           mod_cells (snd (sequence_ff ?w st1))
           @ [constraint_cell ''$assert'' name (fst (sequence_ff ?w st1))]"
    by blast
  show ?thesis
    using h1 h2 h3 h4 h5 h6 ex_run ex_prepare bounded final inst
    by (simp add: pins e0 del: parse_sequence.simps)
qed

subsection \<open>The clock-edge resolver\<close>

text \<open>
  C5. For an edge-operator node (\<open>PRIM_SVA_POSEDGE\<close>) whose input is the net \<open>S\<close>, not
  driven by an inverter as its only driver, the resolver returns the clock \<open>S\<close> with
  positive polarity; when the input net \<open>W\<close> of the node has an inverter with input \<open>S\<close>
  as its only driver, it returns \<open>S\<close> with negative polarity. The clock signal is the
  bit that \<open>net_map_at\<close> gives for \<open>S\<close>, which must be a net of the netlist being
  imported that is already mapped.
\<close>

theorem clock_edge_polarity:
  assumes "inst_Type (db_insts db ip) = ''PRIM_SVA_POSEDGE''"
    and "net_map_at db nl nm (Some S) = Inr sig"
  shows "(inst_Input (db_insts db ip) = Some S
          \<and> (\<forall>d. net_Drivers (db_nets db S) = [d] \<longrightarrow> inst_Type (db_insts db d) \<noteq> ''PRIM_INV'')
          \<longrightarrow> VerificClockEdge db nl nm (Some ip)
               = Inr \<lparr>clock_net = Some S, clock_sig = sig, posedge = Some True\<rparr>)
       \<and> (inst_Input (db_insts db ip) = Some W
          \<and> net_Drivers (db_nets db W) = [d]
          \<and> inst_Type (db_insts db d) = ''PRIM_INV''
          \<and> inst_Input (db_insts db d) = Some S
          \<longrightarrow> VerificClockEdge db nl nm (Some ip)
               = Inr \<lparr>clock_net = Some S, clock_sig = sig, posedge = Some False\<rparr>)"
proof (intro conjI impI)
  assume a: "inst_Input (db_insts db ip) = Some S
          \<and> (\<forall>d. net_Drivers (db_nets db S) = [d] \<longrightarrow> inst_Type (db_insts db d) \<noteq> ''PRIM_INV'')"
  show "VerificClockEdge db nl nm (Some ip)
        = Inr \<lparr>clock_net = Some S, clock_sig = sig, posedge = Some True\<rparr>"
  proof (cases "net_Drivers (db_nets db S)")
    case Nil
    with assms a show ?thesis
      by (simp add: VerificClockEdge_def Driver_def clock_edge_found_def)
  next
    case (Cons x xs)
    with assms a show ?thesis
      by (cases xs)
         (simp_all add: VerificClockEdge_def Driver_def IsMultipleDriven_def clock_edge_found_def)
  qed
next
  assume "inst_Input (db_insts db ip) = Some W
          \<and> net_Drivers (db_nets db W) = [d]
          \<and> inst_Type (db_insts db d) = ''PRIM_INV''
          \<and> inst_Input (db_insts db d) = Some S"
  with assms show "VerificClockEdge db nl nm (Some ip)
        = Inr \<lparr>clock_net = Some S, clock_sig = sig, posedge = Some False\<rparr>"
    by (simp add: VerificClockEdge_def Driver_def IsMultipleDriven_def clock_edge_found_def)
qed

theorem clock_edge_polarity_witness:
  "inst_Type (db_insts ex_db 0) = ''PRIM_SVA_POSEDGE''
   \<and> inst_Type (db_insts ex_db 5) = ''PRIM_SVA_POSEDGE''
   \<and> net_map_at ex_db 0 ex_net_map (Some 0) = Inr (SigWire (Id (pub ''clk'')) 0)
   \<and> inst_Input (db_insts ex_db 0) = Some 0
   \<and> net_Drivers (db_nets ex_db 0) = []
   \<and> VerificClockEdge ex_db 0 ex_net_map (Some 0)
       = Inr \<lparr>clock_net = Some 0, clock_sig = SigWire (Id (pub ''clk'')) 0, posedge = Some True\<rparr>
   \<and> inst_Input (db_insts ex_db 5) = Some 3
   \<and> net_Drivers (db_nets ex_db 3) = [1]
   \<and> inst_Type (db_insts ex_db 1) = ''PRIM_INV''
   \<and> inst_Input (db_insts ex_db 1) = Some 0
   \<and> VerificClockEdge ex_db 0 ex_net_map (Some 5)
       = Inr \<lparr>clock_net = Some 0, clock_sig = SigWire (Id (pub ''clk'')) 0, posedge = Some False\<rparr>"
proof -
  have t0: "inst_Type (db_insts ex_db 0) = ''PRIM_SVA_POSEDGE''"
    and t5: "inst_Type (db_insts ex_db 5) = ''PRIM_SVA_POSEDGE''"
    by (simp_all add: ex_defs)
  have nm: "net_map_at ex_db 0 ex_net_map (Some 0) = Inr (SigWire (Id (pub ''clk'')) 0)"
    by (simp add: ex_defs net_map_at_def IsExternalTo_def)
  have direct: "inst_Input (db_insts ex_db 0) = Some 0" "net_Drivers (db_nets ex_db 0) = []"
    by (simp_all add: ex_defs)
  have inverted: "inst_Input (db_insts ex_db 5) = Some 3" "net_Drivers (db_nets ex_db 3) = [1]"
    "inst_Type (db_insts ex_db 1) = ''PRIM_INV''" "inst_Input (db_insts ex_db 1) = Some 0"
    by (simp_all add: ex_defs)
  show ?thesis
    using t0 t5 nm direct inverted
      clock_edge_polarity [OF t0 nm, where W=0 and d=0]
      clock_edge_polarity [OF t5 nm, where W=3 and d=1]
    by simp
qed

text \<open>
  C6. A node that is neither an edge operator nor an AND gate matches neither idiom, and
  the constructor falls off its end: for the OR gate of the example it returns normally,
  with \<open>clock_net\<close> and \<open>posedge\<close> never written, instead of raising an error. Only
  the AND branch ends in \<open>log_abort\<close>.
\<close>

theorem clock_edge_unmatched_returns:
  "inst_Type (db_insts ex_db 7) = ''PRIM_OR''
   \<and> VerificClockEdge ex_db 0 ex_net_map (Some 7)
       = Inr \<lparr>clock_net = None, clock_sig = SigConst S0, posedge = None\<rparr>"
  by (simp add: VerificClockEdge_def ex_db_def ex_insts_def mk_inst_def)

subsection \<open>Ranges on concatenation and repetition\<close>

lemma no_range_bind: "no_range r \<Longrightarrow> (\<And>x. no_range (f x)) \<Longrightarrow> no_range (bind_res r f)"
  by (auto simp add: no_range_def bind_res_def split: option.splits sum.splits)

lemma no_range_for: "(\<And>x. no_range (body x)) \<Longrightarrow> no_range (for_loop k body s)"
  by (induction k arbitrary: s) (simp_all add: no_range_bind, simp add: no_range_def)

lemma no_range_simps [simp]:
  "no_range (Some (Inr x))" "no_range None"
  "no_range (Some (Inl (UnsupportedSvaPrimitive nm)))"
  by (simp_all add: no_range_def)

lemma no_range_net_map_at:
  "no_range (case net_map_at db nl nm n of Inl e \<Rightarrow> Some (Inl e) | Inr c \<Rightarrow> Some (Inr (f c)))"
  by (auto simp add: net_map_at_def no_range_def split: option.splits sum.splits if_splits)

lemma no_range_atoi:
  "(\<And>v. no_range (g v v)) \<Longrightarrow>
   no_range (case atoi_att i k of Inl e \<Rightarrow> Some (Inl e)
             | Inr lo \<Rightarrow> (case atoi_att i k of Inl e \<Rightarrow> Some (Inl e) | Inr hi \<Rightarrow> g lo hi))"
  by (auto simp add: atoi_att_def no_range_def split: option.splits sum.splits)

text \<open>
  Both \<open>sva_low\<close> and \<open>sva_high\<close> are read from the attribute \<open>sva:low\<close>, so the test
  \<open>sva_low != sva_high\<close> never holds: no input makes \<open>parse_sequence\<close> return either
  range error.
\<close>

lemma parse_sequence_no_range: "no_range (parse_sequence fuel db w st n)"
proof (induction fuel arbitrary: st n)
  case 0
  show ?case by simp
next
  case (Suc fuel)
  note ih = Suc
  show ?case
    unfolding parse_sequence.simps Let_def
    by (auto split: option.splits intro!: no_range_net_map_at no_range_atoi no_range_bind
        no_range_for ih)
qed

text \<open>
  C3. The concatenation node \<open>sig ##[1:3] sig2\<close> of the example has \<open>sva:low = 1\<close> and
  \<open>sva:high = 3\<close>. It is compiled, as a concatenation with the fixed delay 1 (one
  delay-element step, two registers), and no error is raised.
\<close>

theorem concat_range_compiled:
  "atoi_att (db_insts ex_db 6) ''sva:low'' = Inr 1
   \<and> atoi_att (db_insts ex_db 6) ''sva:high'' = Inr 3
   \<and> net_to_ast_driver ex_db (Some 8) = Some 6
   \<and> inst_Type (db_insts ex_db 6) = ''PRIM_SVA_SEQ_CONCAT''
   \<and> (case parse_sequence 3 ex_db ex_worker (initial_sequence, empty_module) (Some 8) of
         Some (Inr st) \<Rightarrow> seq_length (fst st) = 1 \<and> count_cells ''$dff'' (snd st) = 2
       | _ \<Rightarrow> False)"
  by (simp add: ex_defs graph_defs builder_defs bind_res_def initial_sequence_def
        atoi_att_def atoi_def strtol_def isspace_def isdigit_def count_cells_def
        numeral_3_eq_3 Let_def)

subsection \<open>Flip-flops with set and reset\<close>

text \<open>
  C7. Importing a \<open>PRIM_DFFRS\<close> instance whose clock, data and output nets are mapped
  gives, in the gate-level and in the cell-level function alike: a plain edge-triggered
  register when set and reset are both the constant zero; a register with an asynchronous
  reset to 0 on the reset net when only set is constant zero, and with an asynchronous
  reset to 1 on the set net when only reset is; a register with set and reset otherwise.
\<close>

theorem dffrs_degenerates:
  assumes ty: "inst_Type inst = ''PRIM_DFFRS''"
    and pins: "inst_Set inst = Some s" "inst_Reset inst = Some r"
    and nets: "net_map_at db (imp_netlist imp) (imp_net_map imp) (inst_Clock inst) = Inr c"
      "net_map_at db (imp_netlist imp) (imp_net_map imp) (inst_Input inst) = Inr d"
      "net_map_at db (imp_netlist imp) (imp_net_map imp) (inst_Output inst) = Inr q"
    and set_net: "\<not> net_IsGnd (db_nets db s) \<longrightarrow>
        net_map_at db (imp_netlist imp) (imp_net_map imp) (Some s) = Inr sb"
    and reset_net: "\<not> net_IsGnd (db_nets db r) \<longrightarrow>
        net_map_at db (imp_netlist imp) (imp_net_map imp) (Some r) = Inr rb"
  shows "import_netlist_instance_gates db imp m inst name =
           Inr (True,
             if net_IsGnd (db_nets db s) \<and> net_IsGnd (db_nets db r)
               then addDffGate m name [c] [d] [q]
             else if net_IsGnd (db_nets db s) then addAdffGate m name [c] [rb] [d] [q] False
             else if net_IsGnd (db_nets db r) then addAdffGate m name [c] [sb] [d] [q] True
             else addDffsrGate m name [c] [sb] [rb] [d] [q])
       \<and> import_netlist_instance_cells operators db imp m inst name =
           Inr (True,
             if net_IsGnd (db_nets db s) \<and> net_IsGnd (db_nets db r)
               then addDff m name [c] [d] [q] True
             else if net_IsGnd (db_nets db s) then addAdff m name [c] [rb] [d] [q] S0
             else if net_IsGnd (db_nets db r) then addAdff m name [c] [sb] [d] [q] S1
             else addDffsr m name [c] [sb] [rb] [d] [q])"
proof
  show "import_netlist_instance_gates db imp m inst name =
           Inr (True,
             if net_IsGnd (db_nets db s) \<and> net_IsGnd (db_nets db r)
               then addDffGate m name [c] [d] [q]
             else if net_IsGnd (db_nets db s) then addAdffGate m name [c] [rb] [d] [q] False
             else if net_IsGnd (db_nets db r) then addAdffGate m name [c] [sb] [d] [q] True
             else addDffsrGate m name [c] [sb] [rb] [d] [q])"
    using assms
    by (simp add: import_netlist_instance_gates_def import_dffrs_gates_def IsGnd_def
        bind_err_def Let_def)
  show "import_netlist_instance_cells operators db imp m inst name =
           Inr (True,
             if net_IsGnd (db_nets db s) \<and> net_IsGnd (db_nets db r)
               then addDff m name [c] [d] [q] True
             else if net_IsGnd (db_nets db s) then addAdff m name [c] [rb] [d] [q] S0
             else if net_IsGnd (db_nets db r) then addAdff m name [c] [sb] [d] [q] S1
             else addDffsr m name [c] [sb] [rb] [d] [q])"
    using assms
    by (simp add: import_netlist_instance_cells_def import_dffrs_cells_def IsGnd_def
        bind_err_def Let_def)
qed

theorem dffrs_degenerates_witness:
  "inst_Type (ex_dffrs 11 11) = ''PRIM_DFFRS'' \<and> net_IsGnd (db_nets ex_db 11)
   \<and> \<not> net_IsGnd (db_nets ex_db 12) \<and> \<not> net_IsGnd (db_nets ex_db 15)
   \<and> import_netlist_instance_gates ex_db ex_importer empty_module (ex_dffrs 11 11) (Id ''ff'')
       = Inr (True, addDffGate empty_module (Id ''ff'') [SigWire (Id (pub ''clk'')) 0]
                [SigWire (Id (pub ''d'')) 0] [SigWire (Id (pub ''q'')) 0])
   \<and> import_netlist_instance_cells (\<lambda>m i n. Inr (False, m)) ex_db ex_importer empty_module
         (ex_dffrs 11 11) (Id ''ff'')
       = Inr (True, addDff empty_module (Id ''ff'') [SigWire (Id (pub ''clk'')) 0]
                [SigWire (Id (pub ''d'')) 0] [SigWire (Id (pub ''q'')) 0] True)
   \<and> import_netlist_instance_gates ex_db ex_importer empty_module (ex_dffrs 11 12) (Id ''ff'')
       = Inr (True, addAdffGate empty_module (Id ''ff'') [SigWire (Id (pub ''clk'')) 0]
                [SigWire (Id (pub ''rst'')) 0] [SigWire (Id (pub ''d'')) 0]
                [SigWire (Id (pub ''q'')) 0] False)
   \<and> import_netlist_instance_cells (\<lambda>m i n. Inr (False, m)) ex_db ex_importer empty_module
         (ex_dffrs 11 12) (Id ''ff'')
       = Inr (True, addAdff empty_module (Id ''ff'') [SigWire (Id (pub ''clk'')) 0]
                [SigWire (Id (pub ''rst'')) 0] [SigWire (Id (pub ''d'')) 0]
                [SigWire (Id (pub ''q'')) 0] S0)
   \<and> import_netlist_instance_gates ex_db ex_importer empty_module (ex_dffrs 15 11) (Id ''ff'')
       = Inr (True, addAdffGate empty_module (Id ''ff'') [SigWire (Id (pub ''clk'')) 0]
                [SigWire (Id (pub ''pre'')) 0] [SigWire (Id (pub ''d'')) 0]
                [SigWire (Id (pub ''q'')) 0] True)
   \<and> import_netlist_instance_cells (\<lambda>m i n. Inr (False, m)) ex_db ex_importer empty_module
         (ex_dffrs 15 11) (Id ''ff'')
       = Inr (True, addAdff empty_module (Id ''ff'') [SigWire (Id (pub ''clk'')) 0]
                [SigWire (Id (pub ''pre'')) 0] [SigWire (Id (pub ''d'')) 0]
                [SigWire (Id (pub ''q'')) 0] S1)
   \<and> import_netlist_instance_gates ex_db ex_importer empty_module (ex_dffrs 15 12) (Id ''ff'')
       = Inr (True, addDffsrGate empty_module (Id ''ff'') [SigWire (Id (pub ''clk'')) 0]
                [SigWire (Id (pub ''pre'')) 0] [SigWire (Id (pub ''rst'')) 0]
                [SigWire (Id (pub ''d'')) 0] [SigWire (Id (pub ''q'')) 0])
   \<and> import_netlist_instance_cells (\<lambda>m i n. Inr (False, m)) ex_db ex_importer empty_module
         (ex_dffrs 15 12) (Id ''ff'')
       = Inr (True, addDffsr empty_module (Id ''ff'') [SigWire (Id (pub ''clk'')) 0]
                [SigWire (Id (pub ''pre'')) 0] [SigWire (Id (pub ''rst'')) 0]
                [SigWire (Id (pub ''d'')) 0] [SigWire (Id (pub ''q'')) 0])"
proof -
  have ty: "inst_Type (ex_dffrs s r) = ''PRIM_DFFRS''" for s r
    by (simp add: ex_dffrs_def mk_inst_def)
  have pins: "inst_Set (ex_dffrs s r) = Some s" "inst_Reset (ex_dffrs s r) = Some r" for s r
    by (simp_all add: ex_dffrs_def mk_inst_def)
  have gnd: "net_IsGnd (db_nets ex_db 11)" "\<not> net_IsGnd (db_nets ex_db 12)"
    "\<not> net_IsGnd (db_nets ex_db 15)"
    by (simp_all add: ex_defs)
  have nets:
    "net_map_at ex_db (imp_netlist ex_importer) (imp_net_map ex_importer)
       (inst_Clock (ex_dffrs s r)) = Inr (SigWire (Id (pub ''clk'')) 0)"
    "net_map_at ex_db (imp_netlist ex_importer) (imp_net_map ex_importer)
       (inst_Input (ex_dffrs s r)) = Inr (SigWire (Id (pub ''d'')) 0)"
    "net_map_at ex_db (imp_netlist ex_importer) (imp_net_map ex_importer)
       (inst_Output (ex_dffrs s r)) = Inr (SigWire (Id (pub ''q'')) 0)" for s r
    by (simp_all add: ex_defs ex_dffrs_def net_map_at_def IsExternalTo_def)
  have pre: "\<not> net_IsGnd (db_nets ex_db 15) \<longrightarrow>
        net_map_at ex_db (imp_netlist ex_importer) (imp_net_map ex_importer) (Some 15)
          = Inr (SigWire (Id (pub ''pre'')) 0)"
    and rst: "\<not> net_IsGnd (db_nets ex_db 12) \<longrightarrow>
        net_map_at ex_db (imp_netlist ex_importer) (imp_net_map ex_importer) (Some 12)
          = Inr (SigWire (Id (pub ''rst'')) 0)"
    and zero: "\<not> net_IsGnd (db_nets ex_db 11) \<longrightarrow>
        net_map_at ex_db (imp_netlist ex_importer) (imp_net_map ex_importer) (Some 11)
          = Inr (SigConst S0)"
    by (simp_all add: ex_defs net_map_at_def IsExternalTo_def)
  note plain = dffrs_degenerates [OF ty pins nets zero zero,
      where m=empty_module and name="Id ''ff''" and operators="\<lambda>m i n. Inr (False, m)"]
  note arst = dffrs_degenerates [OF ty pins nets zero rst,
      where m=empty_module and name="Id ''ff''" and operators="\<lambda>m i n. Inr (False, m)"]
  note aset = dffrs_degenerates [OF ty pins nets pre zero,
      where m=empty_module and name="Id ''ff''" and operators="\<lambda>m i n. Inr (False, m)"]
  note both = dffrs_degenerates [OF ty pins nets pre rst,
      where m=empty_module and name="Id ''ff''" and operators="\<lambda>m i n. Inr (False, m)"]
  show ?thesis
    using ty [of 11 11] gnd plain arst aset both
    by simp
qed

subsection \<open>Memories\<close>













subsection \<open>One module for every netlist\<close>

lemma import_netlist_distinct:
  assumes "distinct (map fst design)"
    and "import_netlist contents db design nl nl_todo = Inr (design', nl_todo')"
  shows "distinct (map fst design')"
  using assms
  by (auto simp add: import_netlist_def design_has_def design_add_def Let_def
      split: if_splits sum.splits)

lemma import_loop_distinct:
  "distinct (map fst design) \<Longrightarrow>
   import_loop fuel contents db design nl_todo nl_done = Some (Inr design') \<Longrightarrow>
   distinct (map fst design')"
proof (induction fuel arbitrary: design nl_todo nl_done)
  case 0
  then show ?case by simp
next
  case (Suc fuel)
  show ?case
  proof (cases nl_todo)
    case Nil
    with Suc.prems show ?thesis by simp
  next
    case (Cons nl rest)
    show ?thesis
    proof (cases "nl \<in> set nl_done")
      case True
      with Cons Suc.prems Suc.IH show ?thesis by auto
    next
      case False
      with Cons Suc.prems obtain d1 t1 where
        imp: "import_netlist contents db design nl nl_todo = Inr (d1, t1)"
        and rest: "import_loop fuel contents db d1 (removeAll nl t1) (insort_insert nl nl_done)
                   = Some (Inr design')"
        by (auto split: sum.splits)
      from import_netlist_distinct [OF Suc.prems(1) imp] rest Suc.IH show ?thesis
        by blast
    qed
  qed
qed

lemma distinct_count_le_one:
  "distinct (map fst xs) \<Longrightarrow> length (filter (\<lambda>e. fst e = k) xs) \<le> 1"
  by (induction xs) (auto simp add: filter_empty_conv rev_image_eqI)

text \<open>
  C1. When the design already has a module of the target name, \<open>import_netlist\<close> raises
  the re-definition error for a netlist that is not an operator and returns with the
  design and the work-list unchanged for an operator. A module is only added under a name
  the design does not have, so the import loop keeps the module names distinct: however
  often a netlist is instantiated or inserted into the work-list, the design has at most
  one module of its target name.
\<close>

theorem one_module_per_netlist:
  "(design_has design (netlist_module_name (db_netlists db nl))
      \<and> \<not> nl_IsOperator (db_netlists db nl)
    \<longrightarrow> import_netlist contents db design nl nl_todo
          = Inl (Redefinition (nl_OwnerName (db_netlists db nl))))
   \<and> (design_has design' (netlist_module_name (db_netlists db nl'))
      \<and> nl_IsOperator (db_netlists db nl')
    \<longrightarrow> import_netlist contents db design' nl' nl_todo' = Inr (design', nl_todo'))
   \<and> (distinct (map fst start)
      \<and> import_loop fuel contents db start todo finished = Some (Inr final)
    \<longrightarrow> distinct (map fst final)
        \<and> length (filter (\<lambda>e. fst e = netlist_module_name (db_netlists db n)) final) \<le> 1)"
proof (intro conjI impI)
  assume "design_has design (netlist_module_name (db_netlists db nl))
      \<and> \<not> nl_IsOperator (db_netlists db nl)"
  then show "import_netlist contents db design nl nl_todo
          = Inl (Redefinition (nl_OwnerName (db_netlists db nl)))"
    by (simp add: import_netlist_def)
next
  assume "design_has design' (netlist_module_name (db_netlists db nl'))
      \<and> nl_IsOperator (db_netlists db nl')"
  then show "import_netlist contents db design' nl' nl_todo' = Inr (design', nl_todo')"
    by (simp add: import_netlist_def)
next
  assume a: "distinct (map fst start)
      \<and> import_loop fuel contents db start todo finished = Some (Inr final)"
  then show d: "distinct (map fst final)"
    using import_loop_distinct by blast
  then show "length (filter (\<lambda>e. fst e = netlist_module_name (db_netlists db n)) final) \<le> 1"
    by (rule distinct_count_le_one)
qed

lemma ex_import_loop:
  "import_loop 10 ex_contents ex_hier_db [] [0] [] = Some (Inr ex_design)"
  by (simp add: numeral_nat import_netlist_def ex_hier_db_def ex_contents_def ex_design_def
      mk_netlist_def netlist_module_name_def design_has_def design_add_def escape_id_def
      insort_insert_key_def Let_def)

theorem one_module_per_netlist_witness:
  "design_has [(escape_id ''sub'', empty_module)] (netlist_module_name (db_netlists ex_hier_db 1))
   \<and> \<not> nl_IsOperator (db_netlists ex_hier_db 1)
   \<and> import_netlist ex_contents ex_hier_db [(escape_id ''sub'', empty_module)] 1 [1, 2]
       = Inl (Redefinition ''sub'')
   \<and> design_has [(''$verific$add_8'', empty_module)] (netlist_module_name (db_netlists ex_hier_db 2))
   \<and> nl_IsOperator (db_netlists ex_hier_db 2)
   \<and> import_netlist ex_contents ex_hier_db [(''$verific$add_8'', empty_module)] 2 [2]
       = Inr ([(''$verific$add_8'', empty_module)], [2])
   \<and> distinct (map fst ([] :: design))
   \<and> import_loop 10 ex_contents ex_hier_db [] [0] [] = Some (Inr ex_design)
   \<and> distinct (map fst ex_design)
   \<and> length (filter (\<lambda>e. fst e = netlist_module_name (db_netlists ex_hier_db 1)) ex_design) \<le> 1"
proof -
  have h: "design_has [(escape_id ''sub'', empty_module)]
             (netlist_module_name (db_netlists ex_hier_db 1))"
    "\<not> nl_IsOperator (db_netlists ex_hier_db 1)"
    "design_has [(''$verific$add_8'', empty_module)]
       (netlist_module_name (db_netlists ex_hier_db 2))"
    "nl_IsOperator (db_netlists ex_hier_db 2)"
    "nl_OwnerName (db_netlists ex_hier_db 1) = ''sub''"
    by (simp_all add: ex_hier_db_def mk_netlist_def netlist_module_name_def design_has_def)
  have e: "distinct (map fst ([] :: design))"
    by simp
  note inst = one_module_per_netlist [where db=ex_hier_db and contents=ex_contents
      and design="[(escape_id ''sub'', empty_module)]" and nl=1 and nl_todo="[1, 2]"
      and design'="[(''$verific$add_8'', empty_module)]" and nl'=2 and nl_todo'="[2]"
      and start="[]" and fuel=10 and todo="[0]" and finished="[]" and final=ex_design and n=1]
  show ?thesis
    using h e ex_import_loop inst
    by simp
qed

subsection \<open>The preprocessing pass\<close>

text \<open>
  The rewrite exists and would change the graph: with the call in place, in cover mode,
  the implication under the clocked property of the example is replaced by a new
  concatenation instance (instance 9 with the new output net 16), and the clock node is
  reconnected to it.
\<close>

lemma impl_to_seq_would_rewrite:
  "(case impl_to_seq 4 ((new_svapp 4)\<lparr>pp_mode_cover := True, pp_netlist := Some 0\<rparr>)
           ex_graph (Some 4) of
      Some (g, r) \<Rightarrow> inst_Input2 (db_insts (g_db g) 3) = Some 16
                   \<and> inst_Type (db_insts (g_db g) 9) = ''PRIM_SVA_SEQ_CONCAT''
    | None \<Rightarrow> False)
   \<and> inst_Input2 (db_insts ex_db 3) = Some 5"
  by (simp add: numeral_nat ex_graph_def ex_defs graph_defs get_ast_input2_def new_svapp_def
      SvaBinary_def reconnect_Input2_def reconnect_Input_def update_inst_def update_net_def
      add_portref_def drop_portref_def Let_def)

text \<open>
  C10. \<open>run\<close> does not call \<open>impl_to_seq\<close>: for every assertion, assumption or cover
  property handed to the pass, in every graph, the source graph and the module are after
  the pass what they were before.
\<close>

theorem svapp_leaves_graph:
  "svapp_assert g m inst = (g, m) \<and> svapp_assume g m inst = (g, m)
   \<and> svapp_cover g m inst = (g, m)"
  by (simp add: svapp_assert_def svapp_assume_def svapp_cover_def VerificSvaPP_run_def)

subsection \<open>External nets\<close>

lemma same_hierarchy_refl [simp]: "same_hierarchy db db"
  by (simp add: same_hierarchy_def)

lemma same_hierarchy_NumOfRefs: "same_hierarchy db db' \<Longrightarrow> NumOfRefs db' nl = NumOfRefs db nl"
  by (simp add: same_hierarchy_def NumOfRefs_def)

lemma same_hierarchy_up: "same_hierarchy db db' \<Longrightarrow> up_netlist db' nl = up_netlist db nl"
  by (simp add: same_hierarchy_def up_netlist_def)

lemma same_hierarchy_path:
  "same_hierarchy db db' \<Longrightarrow> unique_path db' nl d target = unique_path db nl d target"
  by (induction d arbitrary: nl) (simp_all add: same_hierarchy_NumOfRefs same_hierarchy_up)

lemma get_net_level_up_not_unique:
  assumes "extnets_wf st"
    and "NumOfRefs (g_db (fst st)) (net_Owner (db_nets (g_db (fst st)) net)) \<noteq> 1"
  shows "get_net_level_up st net = (st, net)"
proof -
  from assms have "net_level_up (snd st) net = None"
    by (cases "net_level_up (snd st) net") (auto simp add: extnets_wf_def)
  with assms(2) show ?thesis
    by (cases st) (simp add: get_net_level_up_def Let_def)
qed

lemma get_net_level_up_unique:
  assumes wf: "extnets_wf st"
    and lt: "net < g_next_net (fst st)"
    and uniq: "NumOfRefs (g_db (fst st)) (net_Owner (db_nets (g_db (fst st)) net)) = 1"
    and res: "get_net_level_up st net = (st', net')"
  shows "extnets_wf st' \<and> net' < g_next_net (fst st') \<and> net' \<noteq> net
       \<and> net_Owner (db_nets (g_db (fst st')) net')
           = up_netlist (g_db (fst st)) (net_Owner (db_nets (g_db (fst st)) net))
       \<and> same_hierarchy (g_db (fst st)) (g_db (fst st'))"
proof (cases "net_level_up (snd st) net")
  case (Some up)
  with res have "st' = st" "net' = up"
    by (cases st; simp add: get_net_level_up_def)+
  with wf Some show ?thesis
    by (auto simp add: extnets_wf_def)
next
  case None
  obtain g x where st: "st = (g, x)" by (cases st)
  let ?db = "g_db g"
  let ?nl = "net_Owner (db_nets ?db net)"
  let ?up_inst = "last (nl_References (db_netlists ?db ?nl))"
  from None uniq res st have net': "net' = g_next_net g"
    by (auto simp add: get_net_level_up_def Let_def)
  from None uniq res st have
    nxt: "g_next_net (fst st') = g_next_net g + 1"
    and map: "net_level_up (snd st') = (net_level_up x)(net \<mapsto> g_next_net g)"
    by (auto simp add: get_net_level_up_def Let_def)
  from None uniq res st have
    owner: "\<And>n. net_Owner (db_nets (g_db (fst st')) n) =
               (if n = g_next_net g then inst_Owner (db_insts ?db ?up_inst)
                else net_Owner (db_nets ?db n))"
    by (auto simp add: get_net_level_up_def Let_def update_net_def update_inst_def
        update_netlist_def)
  from None uniq res st have hier: "same_hierarchy ?db (g_db (fst st'))"
    by (auto simp add: get_net_level_up_def Let_def update_net_def update_inst_def
        update_netlist_def same_hierarchy_def)
  have up: "up_netlist ?db ?nl = inst_Owner (db_insts ?db ?up_inst)"
    by (simp add: up_netlist_def)
  have "extnets_wf st'"
    unfolding extnets_wf_def
  proof (intro allI impI)
    fix n up
    assume a: "net_level_up (snd st') n = Some up"
    show "n < up \<and> up < g_next_net (fst st')
        \<and> NumOfRefs (g_db (fst st')) (net_Owner (db_nets (g_db (fst st')) n)) = 1
        \<and> net_Owner (db_nets (g_db (fst st')) up)
            = up_netlist (g_db (fst st')) (net_Owner (db_nets (g_db (fst st')) n))"
    proof (cases "n = net")
      case True
      with a map have "up = g_next_net g" by simp
      with True lt st uniq show ?thesis
        by (simp add: nxt owner same_hierarchy_NumOfRefs [OF hier] same_hierarchy_up [OF hier] up)
    next
      case False
      with a map have old: "net_level_up x n = Some up" by simp
      with wf st have o: "n < up" "up < g_next_net g"
        "NumOfRefs ?db (net_Owner (db_nets ?db n)) = 1"
        "net_Owner (db_nets ?db up) = up_netlist ?db (net_Owner (db_nets ?db n))"
        by (auto simp add: extnets_wf_def)
      then show ?thesis
        by (simp add: nxt owner same_hierarchy_NumOfRefs [OF hier] same_hierarchy_up [OF hier])
    qed
  qed
  with net' nxt lt st owner hier up show ?thesis
    by simp
qed

lemma connect_todo_nets: "db_nets (g_db (connect_todo g e)) = db_nets (g_db g)"
  by (cases e) (simp add: connect_todo_def update_inst_def)

lemmas ext_defs = ex_ext_state_def ex_ext_db_def mk_net_def mk_inst_def mk_netlist_def

lemma ex_ext_wf: "extnets_wf ex_ext_state"
  by (simp add: extnets_wf_def ex_ext_state_def)



lemma lifted_refl: "lifted P st st"
  by (simp add: lifted_def)

lemma lifted_weaken: "lifted P a b \<Longrightarrow> (\<And>i. Q i \<Longrightarrow> P i) \<Longrightarrow> lifted Q a b"
  by (simp add: lifted_def)

lemma lifted_trans:
  assumes ab: "lifted P a b" and bc: "lifted P b c"
  shows "lifted P a c"
proof -
  let ?da = "g_db (fst a)"
  let ?db = "g_db (fst b)"
  let ?dc = "g_db (fst c)"
  from ab have hab: "same_hierarchy ?da ?db"
    and nab: "g_next_net (fst a) \<le> g_next_net (fst b)"
    and oab: "\<And>n. n < g_next_net (fst a) \<Longrightarrow>
                net_Owner (db_nets ?db n) = net_Owner (db_nets ?da n)"
    by (simp_all add: lifted_def)
  from bc have hbc: "same_hierarchy ?db ?dc"
    and nbc: "g_next_net (fst b) \<le> g_next_net (fst c)"
    and obc: "\<And>n. n < g_next_net (fst b) \<Longrightarrow>
                net_Owner (db_nets ?dc n) = net_Owner (db_nets ?db n)"
    by (simp_all add: lifted_def)
  have h: "same_hierarchy ?da ?dc"
    using hab hbc by (simp add: same_hierarchy_def)
  have owner_b: "\<And>i. inst_Owner (db_insts ?db i) = inst_Owner (db_insts ?da i)"
    using hab by (simp add: same_hierarchy_def)
  have prs: "\<exists>added. inst_PortRefs (db_insts ?dc i) = inst_PortRefs (db_insts ?da i) @ added
                \<and> (\<forall>pr\<in>set added. snd pr < g_next_net (fst c)
                      \<and> net_Owner (db_nets ?dc (snd pr)) = inst_Owner (db_insts ?da i))"
    if "P i" for i
  proof -
    from ab that obtain ad1 where
      1: "inst_PortRefs (db_insts ?db i) = inst_PortRefs (db_insts ?da i) @ ad1"
         "\<forall>pr\<in>set ad1. snd pr < g_next_net (fst b)
              \<and> net_Owner (db_nets ?db (snd pr)) = inst_Owner (db_insts ?da i)"
      unfolding lifted_def by blast
    from bc that obtain ad2 where
      2: "inst_PortRefs (db_insts ?dc i) = inst_PortRefs (db_insts ?db i) @ ad2"
         "\<forall>pr\<in>set ad2. snd pr < g_next_net (fst c)
              \<and> net_Owner (db_nets ?dc (snd pr)) = inst_Owner (db_insts ?db i)"
      unfolding lifted_def by blast
    have "inst_PortRefs (db_insts ?dc i) = inst_PortRefs (db_insts ?da i) @ (ad1 @ ad2)"
      using 1 2 by simp
    moreover have "\<forall>pr\<in>set (ad1 @ ad2). snd pr < g_next_net (fst c)
                      \<and> net_Owner (db_nets ?dc (snd pr)) = inst_Owner (db_insts ?da i)"
      using 1(2) 2(2) nbc obc owner_b by fastforce
    ultimately show ?thesis by blast
  qed
  have nets: "db_nets ?dc n = db_nets ?da n"
    if "n < g_next_net (fst a)" "NumOfRefs ?da (net_Owner (db_nets ?da n)) \<noteq> 1" for n
  proof -
    from ab that have 1: "db_nets ?db n = db_nets ?da n"
      by (simp add: lifted_def)
    from that nab have "n < g_next_net (fst b)" by simp
    moreover from that 1 have "NumOfRefs ?db (net_Owner (db_nets ?db n)) \<noteq> 1"
      by (simp add: same_hierarchy_NumOfRefs [OF hab])
    ultimately have "db_nets ?dc n = db_nets ?db n"
      using bc by (simp add: lifted_def)
    with 1 show ?thesis by simp
  qed
  have ports: "nl_Ports (db_netlists ?dc nl) = nl_Ports (db_netlists ?da nl)"
    if "NumOfRefs ?da nl \<noteq> 1" for nl
  proof -
    from ab that have 1: "nl_Ports (db_netlists ?db nl) = nl_Ports (db_netlists ?da nl)"
      by (simp add: lifted_def)
    from that have "NumOfRefs ?db nl \<noteq> 1"
      by (simp add: same_hierarchy_NumOfRefs [OF hab])
    with bc have "nl_Ports (db_netlists ?dc nl) = nl_Ports (db_netlists ?db nl)"
      by (simp add: lifted_def)
    with 1 show ?thesis by simp
  qed
  from ab bc have inst: "\<And>nl. nl_Instances (db_netlists ?dc nl) = nl_Instances (db_netlists ?da nl)"
    and view: "\<And>i. inst_View (db_insts ?dc i) = inst_View (db_insts ?da i)"
    by (simp_all add: lifted_def)
  have own: "net_Owner (db_nets ?dc n) = net_Owner (db_nets ?da n)" if "n < g_next_net (fst a)" for n
    using that oab obc nab by simp
  show ?thesis
    unfolding lifted_def
    using h inst view nab nbc own prs nets ports
    by (intro conjI allI impI) simp_all
qed

lemma extnets_inv_lt:
  "extnets_inv st \<Longrightarrow> pr \<in> set (inst_PortRefs (db_insts (g_db (fst st)) i)) \<Longrightarrow>
   snd pr < g_next_net (fst st)"
  by (simp add: extnets_inv_def)

lemma get_net_level_up_lifted:
  assumes inv: "extnets_inv st"
    and lt: "net < g_next_net (fst st)"
    and res: "get_net_level_up st net = (st', net')"
  shows "lifted (\<lambda>_. True) st st' \<and> extnets_inv st' \<and> net' < g_next_net (fst st')
       \<and> (if NumOfRefs (g_db (fst st)) (net_Owner (db_nets (g_db (fst st)) net)) = 1
          then net' \<noteq> net
             \<and> net_Owner (db_nets (g_db (fst st')) net')
                 = up_netlist (g_db (fst st)) (net_Owner (db_nets (g_db (fst st)) net))
          else st' = st \<and> net' = net)"
proof (cases "NumOfRefs (g_db (fst st)) (net_Owner (db_nets (g_db (fst st)) net)) = 1")
  case False
  from inv have wf: "extnets_wf st" by (simp add: extnets_inv_def)
  from get_net_level_up_not_unique [OF wf False] res have "st' = st" "net' = net"
    by simp_all
  with False inv lt show ?thesis
    by (simp add: lifted_refl)
next
  case uniq: True
  from inv have wf: "extnets_wf st" by (simp add: extnets_inv_def)
  note u = get_net_level_up_unique [OF wf lt uniq res]
  show ?thesis
  proof (cases "net_level_up (snd st) net")
    case (Some up)
    with res have "st' = st" "net' = up"
      by (cases st; simp add: get_net_level_up_def)+
    with u inv uniq show ?thesis
      by (simp add: lifted_refl)
  next
    case None
    obtain g x where st: "st = (g, x)" by (cases st)
    let ?db = "g_db g"
    let ?nl = "net_Owner (db_nets ?db net)"
    let ?up_inst = "last (nl_References (db_netlists ?db ?nl))"
    let ?name = "''___extnets_'' @ string_of_nat (portname_cnt x)"
    from None uniq res st have
      nxt: "g_next_net (fst st') = g_next_net g + 1"
      by (auto simp add: get_net_level_up_def Let_def simp del: string_of_nat.simps)
    from None uniq res st have
      nets: "\<And>n. n \<noteq> net \<Longrightarrow> n \<noteq> g_next_net g \<Longrightarrow>
                 db_nets (g_db (fst st')) n = db_nets ?db n"
      and owner: "\<And>n. net_Owner (db_nets (g_db (fst st')) n) =
               (if n = g_next_net g then inst_Owner (db_insts ?db ?up_inst)
                else net_Owner (db_nets ?db n))"
      by (auto simp add: get_net_level_up_def Let_def update_net_def update_inst_def
          update_netlist_def simp del: string_of_nat.simps)
    from None uniq res st have
      insts: "\<And>i. inst_View (db_insts (g_db (fst st')) i) = inst_View (db_insts ?db i)"
      and prs: "\<And>i. inst_PortRefs (db_insts (g_db (fst st')) i) =
                 inst_PortRefs (db_insts ?db i)
                   @ (if i = ?up_inst then [(?name, g_next_net g)] else [])"
      by (auto simp add: get_net_level_up_def Let_def update_net_def update_inst_def
          update_netlist_def simp del: string_of_nat.simps)
    from None uniq res st have
      nls: "\<And>nl. nl_Instances (db_netlists (g_db (fst st')) nl) = nl_Instances (db_netlists ?db nl)"
      and ports: "\<And>nl. nl \<noteq> ?nl \<Longrightarrow>
                    nl_Ports (db_netlists (g_db (fst st')) nl) = nl_Ports (db_netlists ?db nl)"
      by (auto simp add: get_net_level_up_def Let_def update_net_def update_inst_def
          update_netlist_def simp del: string_of_nat.simps)
    have "lifted (\<lambda>_. True) st st'"
      unfolding lifted_def
    proof (intro conjI allI impI)
      show "same_hierarchy (g_db (fst st)) (g_db (fst st'))"
        using u by simp
      show "g_next_net (fst st) \<le> g_next_net (fst st')"
        using nxt st by simp
      show "nl_Instances (db_netlists (g_db (fst st')) nl)
              = nl_Instances (db_netlists (g_db (fst st)) nl)" for nl
        using nls st by simp
      show "inst_View (db_insts (g_db (fst st')) i) = inst_View (db_insts (g_db (fst st)) i)" for i
        using insts st by simp
      show "net_Owner (db_nets (g_db (fst st')) n) = net_Owner (db_nets (g_db (fst st)) n)"
        if "n < g_next_net (fst st)" for n
        using that owner st by simp
      show "\<exists>added. inst_PortRefs (db_insts (g_db (fst st')) i)
                        = inst_PortRefs (db_insts (g_db (fst st)) i) @ added
                    \<and> (\<forall>pr\<in>set added.
                          snd pr < g_next_net (fst st')
                          \<and> net_Owner (db_nets (g_db (fst st')) (snd pr))
                              = inst_Owner (db_insts (g_db (fst st)) i))" for i
        using prs [of i] owner nxt st
        by (intro exI [of _ "if i = ?up_inst then [(?name, g_next_net g)] else []"])
          (simp del: string_of_nat.simps)
      show "db_nets (g_db (fst st')) n = db_nets (g_db (fst st)) n"
        if "n < g_next_net (fst st)"
          "NumOfRefs (g_db (fst st)) (net_Owner (db_nets (g_db (fst st)) n)) \<noteq> 1" for n
        using that nets [of n] uniq st by auto
      show "nl_Ports (db_netlists (g_db (fst st')) nl) = nl_Ports (db_netlists (g_db (fst st)) nl)"
        if "NumOfRefs (g_db (fst st)) nl \<noteq> 1" for nl
        using that ports [of nl] uniq st by auto
    qed
    moreover have "extnets_inv st'"
      unfolding extnets_inv_def
    proof (intro conjI allI ballI)
      show "extnets_wf st'" using u by simp
      fix i pr
      assume "pr \<in> set (inst_PortRefs (db_insts (g_db (fst st')) i))"
      with prs [of i] have "pr \<in> set (inst_PortRefs (db_insts ?db i)) \<or> snd pr = g_next_net g"
        by (auto split: if_splits simp del: string_of_nat.simps)
      with extnets_inv_lt [OF inv, of pr i] st nxt show "snd pr < g_next_net (fst st')"
        by (auto simp add: less_Suc_eq)
    qed
    ultimately show ?thesis
      using u uniq by simp
  qed
qed

lemma lifted_hierarchy: "lifted P st st' \<Longrightarrow> same_hierarchy (g_db (fst st)) (g_db (fst st'))"
  by (simp add: lifted_def)

lemma lifted_owner:
  "lifted P st st' \<Longrightarrow> n < g_next_net (fst st) \<Longrightarrow>
   net_Owner (db_nets (g_db (fst st')) n) = net_Owner (db_nets (g_db (fst st)) n)"
  by (simp add: lifted_def)

lemma lifted_next: "lifted P st st' \<Longrightarrow> g_next_net (fst st) \<le> g_next_net (fst st')"
  by (simp add: lifted_def)

lemma lifted_instances:
  "lifted P st st' \<Longrightarrow>
   nl_Instances (db_netlists (g_db (fst st')) nl) = nl_Instances (db_netlists (g_db (fst st)) nl)"
  by (simp add: lifted_def)

lemma lifted_view:
  "lifted P st st' \<Longrightarrow>
   inst_View (db_insts (g_db (fst st')) i) = inst_View (db_insts (g_db (fst st)) i)"
  by (simp add: lifted_def)

lemma lifted_inst_owner:
  "lifted P st st' \<Longrightarrow>
   inst_Owner (db_insts (g_db (fst st')) i) = inst_Owner (db_insts (g_db (fst st)) i)"
  by (simp add: lifted_def same_hierarchy_def)

lemma lifted_portrefs:
  "lifted P st st' \<Longrightarrow> P i \<Longrightarrow>
   \<exists>added. inst_PortRefs (db_insts (g_db (fst st')) i)
             = inst_PortRefs (db_insts (g_db (fst st)) i) @ added
         \<and> (\<forall>pr\<in>set added.
               snd pr < g_next_net (fst st')
               \<and> net_Owner (db_nets (g_db (fst st')) (snd pr))
                   = inst_Owner (db_insts (g_db (fst st)) i))"
  by (simp add: lifted_def)

lemma hierarchy_levels_lifted:
  assumes l: "lifted P st st'" and h: "hierarchy_levels (g_db (fst st)) level height"
  shows "hierarchy_levels (g_db (fst st')) level height"
  using h
  by (simp add: hierarchy_levels_def lifted_instances [OF l] lifted_view [OF l]
      lifted_inst_owner [OF l] same_hierarchy_NumOfRefs [OF lifted_hierarchy [OF l]]
      same_hierarchy_up [OF lifted_hierarchy [OF l]])

lemma hierarchy_levels_up:
  "hierarchy_levels db level height \<Longrightarrow> NumOfRefs db nl = 1 \<Longrightarrow>
   level nl < level (up_netlist db nl) \<and> level (up_netlist db nl) \<le> height"
  by (simp add: hierarchy_levels_def)

lemma unique_path_external:
  "unique_path db nl d target \<Longrightarrow> nl \<noteq> target \<Longrightarrow>
   NumOfRefs db nl = 1 \<and> (\<exists>d'. unique_path db (up_netlist db nl) d' target)"
  by (cases d) auto

lemma resolve_net_lifted:
  "extnets_inv st \<Longrightarrow> hierarchy_levels (g_db (fst st)) level height \<Longrightarrow>
   net < g_next_net (fst st) \<Longrightarrow>
   height - level (net_Owner (db_nets (g_db (fst st)) net)) < fuel \<Longrightarrow>
   \<exists>st' net'. resolve_net fuel nl st net = Some (st', net')
      \<and> lifted (\<lambda>_. True) st st' \<and> extnets_inv st' \<and> net' < g_next_net (fst st')
      \<and> (NumOfRefs (g_db (fst st)) (net_Owner (db_nets (g_db (fst st)) net)) \<noteq> 1
           \<longrightarrow> st' = st \<and> net' = net)
      \<and> ((\<exists>d. unique_path (g_db (fst st)) (net_Owner (db_nets (g_db (fst st)) net)) d nl)
           \<longrightarrow> net_Owner (db_nets (g_db (fst st')) net') = nl)"
proof (induction fuel arbitrary: st net)
  case 0
  then show ?case by simp
next
  case (Suc f)
  let ?db = "g_db (fst st)"
  let ?own = "net_Owner (db_nets ?db net)"
  show ?case
  proof (cases "IsExternalTo (db_nets ?db net) nl")
    case False
    with Suc.prems show ?thesis
      by (simp add: lifted_refl IsExternalTo_def)
  next
    case ext: True
    obtain st1 net1 where step: "get_net_level_up st net = (st1, net1)"
      by (cases "get_net_level_up st net")
    note l = get_net_level_up_lifted [OF Suc.prems(1) Suc.prems(3) step]
    show ?thesis
    proof (cases "NumOfRefs ?db ?own = 1")
      case False
      with l have same: "st1 = st" "net1 = net" by simp_all
      from ext False have "\<not> (\<exists>d. unique_path ?db ?own d nl)"
        using unique_path_external [of ?db ?own _ nl]
        by (auto simp add: IsExternalTo_def)
      with ext step same Suc.prems show ?thesis
        by (simp add: lifted_refl)
    next
      case uniq: True
      with l have l1: "lifted (\<lambda>_. True) st st1" and inv1: "extnets_inv st1"
        and lt1: "net1 < g_next_net (fst st1)" and ne: "net1 \<noteq> net"
        and own1: "net_Owner (db_nets (g_db (fst st1)) net1) = up_netlist ?db ?own"
        by simp_all
      note h1 = hierarchy_levels_lifted [OF l1 Suc.prems(2)]
      from hierarchy_levels_up [OF Suc.prems(2) uniq] Suc.prems(4) own1
      have fuel1: "height - level (net_Owner (db_nets (g_db (fst st1)) net1)) < f"
        by (simp only:) arith
      from Suc.IH [OF inv1 h1 lt1 fuel1] obtain st' net' where
        r: "resolve_net f nl st1 net1 = Some (st', net')"
        and l2: "lifted (\<lambda>_. True) st1 st'" and inv': "extnets_inv st'"
        and lt': "net' < g_next_net (fst st')"
        and path': "(\<exists>d. unique_path (g_db (fst st1))
                          (net_Owner (db_nets (g_db (fst st1)) net1)) d nl)
                    \<longrightarrow> net_Owner (db_nets (g_db (fst st')) net') = nl"
        by blast
      have "net_Owner (db_nets (g_db (fst st')) net') = nl"
        if "\<exists>d. unique_path ?db ?own d nl"
      proof -
        from that ext obtain d' where "unique_path ?db (up_netlist ?db ?own) d' nl"
          using unique_path_external [of ?db ?own _ nl]
          by (auto simp add: IsExternalTo_def)
        then have "unique_path (g_db (fst st1)) (net_Owner (db_nets (g_db (fst st1)) net1)) d' nl"
          by (simp add: own1 same_hierarchy_path [OF lifted_hierarchy [OF l1]])
        with path' show ?thesis by blast
      qed
      with r ext step ne uniq lifted_trans [OF l1 l2] inv' lt' show ?thesis
        by simp
    qed
  qed
qed

lemma lifted_external:
  "lifted P st st' \<Longrightarrow> n < g_next_net (fst st) \<Longrightarrow>
   IsExternalTo (db_nets (g_db (fst st')) n) nl = IsExternalTo (db_nets (g_db (fst st)) n) nl"
  by (simp add: IsExternalTo_def lifted_owner)

lemma lifted_refs:
  "lifted P st st' \<Longrightarrow> n < g_next_net (fst st) \<Longrightarrow>
   NumOfRefs (g_db (fst st')) (net_Owner (db_nets (g_db (fst st')) n))
     = NumOfRefs (g_db (fst st)) (net_Owner (db_nets (g_db (fst st)) n))"
  by (simp add: lifted_owner same_hierarchy_NumOfRefs [OF lifted_hierarchy])

lemma lifted_path:
  "lifted P st st' \<Longrightarrow> n < g_next_net (fst st) \<Longrightarrow>
   unique_path (g_db (fst st')) (net_Owner (db_nets (g_db (fst st')) n)) d nl
     = unique_path (g_db (fst st)) (net_Owner (db_nets (g_db (fst st)) n)) d nl"
  by (simp add: lifted_owner same_hierarchy_path [OF lifted_hierarchy])

lemma fix_portrefs_lifted:
  "extnets_inv st \<Longrightarrow> hierarchy_levels (g_db (fst st)) level height \<Longrightarrow> height < fuel \<Longrightarrow>
   \<forall>pr\<in>set prs. snd pr < g_next_net (fst st) \<Longrightarrow>
   \<exists>st' new. fix_portrefs fuel nl inst prs (st, todo) = Some (st', todo @ new)
      \<and> lifted (\<lambda>_. True) st st' \<and> extnets_inv st'
      \<and> (\<forall>e\<in>set new. fst e = inst \<and> snd (snd e) < g_next_net (fst st')
            \<and> (\<exists>n. (fst (snd e), n) \<in> set prs
                  \<and> IsExternalTo (db_nets (g_db (fst st)) n) nl
                  \<and> (NumOfRefs (g_db (fst st)) (net_Owner (db_nets (g_db (fst st)) n)) \<noteq> 1
                       \<longrightarrow> snd (snd e) = n)
                  \<and> ((\<exists>d. unique_path (g_db (fst st))
                             (net_Owner (db_nets (g_db (fst st)) n)) d nl)
                       \<longrightarrow> net_Owner (db_nets (g_db (fst st')) (snd (snd e))) = nl)))
      \<and> (\<forall>pr\<in>set prs. IsExternalTo (db_nets (g_db (fst st)) (snd pr)) nl
            \<longrightarrow> (\<exists>e\<in>set new. fst (snd e) = fst pr))"
proof (induction prs arbitrary: st todo)
  case Nil
  then show ?case
    by (simp add: lifted_refl)
next
  case (Cons pr prs)
  obtain port net where pr: "pr = (port, net)" by (cases pr)
  let ?db = "g_db (fst st)"
  from Cons.prems(4) have lts: "\<forall>pr\<in>set prs. snd pr < g_next_net (fst st)"
    and lt: "net < g_next_net (fst st)"
    by (simp_all add: pr)
  show ?case
  proof (cases "IsExternalTo (db_nets ?db net) nl")
    case False
    from Cons.IH [OF Cons.prems(1) Cons.prems(2) Cons.prems(3) lts, of todo]
    obtain st' new where
      r: "fix_portrefs fuel nl inst prs (st, todo) = Some (st', todo @ new)"
      and rest: "lifted (\<lambda>_. True) st st'" "extnets_inv st'"
      and ent: "\<forall>e\<in>set new. fst e = inst \<and> snd (snd e) < g_next_net (fst st')
            \<and> (\<exists>n. (fst (snd e), n) \<in> set prs
                  \<and> IsExternalTo (db_nets ?db n) nl
                  \<and> (NumOfRefs ?db (net_Owner (db_nets ?db n)) \<noteq> 1 \<longrightarrow> snd (snd e) = n)
                  \<and> ((\<exists>d. unique_path ?db (net_Owner (db_nets ?db n)) d nl)
                       \<longrightarrow> net_Owner (db_nets (g_db (fst st')) (snd (snd e))) = nl))"
      and cov: "\<forall>pr\<in>set prs. IsExternalTo (db_nets ?db (snd pr)) nl
            \<longrightarrow> (\<exists>e\<in>set new. fst (snd e) = fst pr)"
      by blast
    from False r have "fix_portrefs fuel nl inst (pr # prs) (st, todo) = Some (st', todo @ new)"
      by (simp add: pr)
    moreover from ent have "\<forall>e\<in>set new. fst e = inst \<and> snd (snd e) < g_next_net (fst st')
            \<and> (\<exists>n. (fst (snd e), n) \<in> set (pr # prs)
                  \<and> IsExternalTo (db_nets ?db n) nl
                  \<and> (NumOfRefs ?db (net_Owner (db_nets ?db n)) \<noteq> 1 \<longrightarrow> snd (snd e) = n)
                  \<and> ((\<exists>d. unique_path ?db (net_Owner (db_nets ?db n)) d nl)
                       \<longrightarrow> net_Owner (db_nets (g_db (fst st')) (snd (snd e))) = nl))"
      by (simp del: ex_simps) blast
    moreover from cov False have "\<forall>pr\<in>set (pr # prs). IsExternalTo (db_nets ?db (snd pr)) nl
            \<longrightarrow> (\<exists>e\<in>set new. fst (snd e) = fst pr)"
      by (simp add: pr)
    ultimately show ?thesis
      using rest by blast
  next
    case ext: True
    from Cons.prems(3) have "height - level (net_Owner (db_nets ?db net)) < fuel"
      by simp
    from resolve_net_lifted [OF Cons.prems(1) Cons.prems(2) lt this, of nl]
    obtain st1 net1 where
      r1: "resolve_net fuel nl st net = Some (st1, net1)"
      and l1: "lifted (\<lambda>_. True) st st1" and inv1: "extnets_inv st1"
      and lt1: "net1 < g_next_net (fst st1)"
      and same1: "NumOfRefs ?db (net_Owner (db_nets ?db net)) \<noteq> 1 \<longrightarrow> net1 = net"
      and path1: "(\<exists>d. unique_path ?db (net_Owner (db_nets ?db net)) d nl)
                   \<longrightarrow> net_Owner (db_nets (g_db (fst st1)) net1) = nl"
      by blast
    let ?db1 = "g_db (fst st1)"
    note h1 = hierarchy_levels_lifted [OF l1 Cons.prems(2)]
    from lts lifted_next [OF l1] have lts1: "\<forall>pr\<in>set prs. snd pr < g_next_net (fst st1)"
      by fastforce
    from Cons.IH [OF inv1 h1 Cons.prems(3) lts1, of "todo @ [(inst, port, net1)]"]
    obtain st' new where
      r: "fix_portrefs fuel nl inst prs (st1, todo @ [(inst, port, net1)])
            = Some (st', (todo @ [(inst, port, net1)]) @ new)"
      and l2: "lifted (\<lambda>_. True) st1 st'" and inv': "extnets_inv st'"
      and ent: "\<forall>e\<in>set new. fst e = inst \<and> snd (snd e) < g_next_net (fst st')
            \<and> (\<exists>n. (fst (snd e), n) \<in> set prs
                  \<and> IsExternalTo (db_nets ?db1 n) nl
                  \<and> (NumOfRefs ?db1 (net_Owner (db_nets ?db1 n)) \<noteq> 1 \<longrightarrow> snd (snd e) = n)
                  \<and> ((\<exists>d. unique_path ?db1 (net_Owner (db_nets ?db1 n)) d nl)
                       \<longrightarrow> net_Owner (db_nets (g_db (fst st')) (snd (snd e))) = nl))"
      and cov: "\<forall>pr\<in>set prs. IsExternalTo (db_nets ?db1 (snd pr)) nl
            \<longrightarrow> (\<exists>e\<in>set new. fst (snd e) = fst pr)"
      by blast
    from ext r1 r have run: "fix_portrefs fuel nl inst (pr # prs) (st, todo)
                       = Some (st', todo @ ((inst, port, net1) # new))"
      by (simp add: pr)
    have head: "snd (snd (inst, port, net1)) < g_next_net (fst st')
            \<and> (\<exists>n. (port, n) \<in> set (pr # prs)
                  \<and> IsExternalTo (db_nets ?db n) nl
                  \<and> (NumOfRefs ?db (net_Owner (db_nets ?db n)) \<noteq> 1 \<longrightarrow> net1 = n)
                  \<and> ((\<exists>d. unique_path ?db (net_Owner (db_nets ?db n)) d nl)
                       \<longrightarrow> net_Owner (db_nets (g_db (fst st')) net1) = nl))"
    proof (intro conjI exI [of _ net])
      from lt1 lifted_next [OF l2] show "snd (snd (inst, port, net1)) < g_next_net (fst st')"
        by simp
      show "(port, net) \<in> set (pr # prs)" by (simp add: pr)
      show "IsExternalTo (db_nets ?db net) nl" by (rule ext)
      show "NumOfRefs ?db (net_Owner (db_nets ?db net)) \<noteq> 1 \<longrightarrow> net1 = net" by (rule same1)
      show "(\<exists>d. unique_path ?db (net_Owner (db_nets ?db net)) d nl)
                       \<longrightarrow> net_Owner (db_nets (g_db (fst st')) net1) = nl"
        using path1 lifted_owner [OF l2 lt1] by simp
    qed
    have tail: "fst e = inst \<and> snd (snd e) < g_next_net (fst st')
            \<and> (\<exists>n. (fst (snd e), n) \<in> set (pr # prs)
                  \<and> IsExternalTo (db_nets ?db n) nl
                  \<and> (NumOfRefs ?db (net_Owner (db_nets ?db n)) \<noteq> 1 \<longrightarrow> snd (snd e) = n)
                  \<and> ((\<exists>d. unique_path ?db (net_Owner (db_nets ?db n)) d nl)
                       \<longrightarrow> net_Owner (db_nets (g_db (fst st')) (snd (snd e))) = nl))"
      if "e \<in> set new" for e
    proof -
      from ent that obtain n where
        e: "fst e = inst" "snd (snd e) < g_next_net (fst st')"
        and n: "(fst (snd e), n) \<in> set prs" "IsExternalTo (db_nets ?db1 n) nl"
          "NumOfRefs ?db1 (net_Owner (db_nets ?db1 n)) \<noteq> 1 \<longrightarrow> snd (snd e) = n"
          "(\<exists>d. unique_path ?db1 (net_Owner (db_nets ?db1 n)) d nl)
              \<longrightarrow> net_Owner (db_nets (g_db (fst st')) (snd (snd e))) = nl"
        by blast
      from n(1) lts have ltn: "n < g_next_net (fst st)" by fastforce
      from n e show ?thesis
        by (intro conjI exI [of _ n])
          (simp_all add: lifted_external [OF l1 ltn] lifted_refs [OF l1 ltn]
            lifted_path [OF l1 ltn])
    qed
    have cov': "\<exists>e\<in>set ((inst, port, net1) # new). fst (snd e) = fst q"
      if "q \<in> set (pr # prs)" "IsExternalTo (db_nets ?db (snd q)) nl" for q
    proof (cases "q = pr")
      case True
      then show ?thesis by (simp add: pr)
    next
      case False
      with that have q: "q \<in> set prs" by simp
      with lts have "snd q < g_next_net (fst st)" by simp
      with that(2) have "IsExternalTo (db_nets ?db1 (snd q)) nl"
        by (simp add: lifted_external [OF l1])
      with cov q show ?thesis by fastforce
    qed
    show ?thesis
    proof (intro exI [of _ st'] exI [of _ "(inst, port, net1) # new"] conjI ballI impI)
      show "fix_portrefs fuel nl inst (pr # prs) (st, todo)
              = Some (st', todo @ (inst, port, net1) # new)"
        by (rule run)
      show "lifted (\<lambda>_. True) st st'" by (rule lifted_trans [OF l1 l2])
      show "extnets_inv st'" by (rule inv')
    next
      fix e assume "e \<in> set ((inst, port, net1) # new)"
      then consider "e = (inst, port, net1)" | "e \<in> set new" by auto
      then show "fst e = inst" using tail by cases simp_all
    next
      fix e assume "e \<in> set ((inst, port, net1) # new)"
      then consider "e = (inst, port, net1)" | "e \<in> set new" by auto
      then show "snd (snd e) < g_next_net (fst st')" using tail head by cases simp_all
    next
      fix e assume "e \<in> set ((inst, port, net1) # new)"
      then consider "e = (inst, port, net1)" | "e \<in> set new" by auto
      then show "\<exists>n. (fst (snd e), n) \<in> set (pr # prs)
                  \<and> IsExternalTo (db_nets ?db n) nl
                  \<and> (NumOfRefs ?db (net_Owner (db_nets ?db n)) \<noteq> 1 \<longrightarrow> snd (snd e) = n)
                  \<and> ((\<exists>d. unique_path ?db (net_Owner (db_nets ?db n)) d nl)
                       \<longrightarrow> net_Owner (db_nets (g_db (fst st')) (snd (snd e))) = nl)"
      proof cases
        case 1
        with head show ?thesis by simp
      next
        case 2
        with tail [of e] show ?thesis by blast
      qed
    next
      fix q assume "q \<in> set (pr # prs)" "IsExternalTo (db_nets ?db (snd q)) nl"
      then show "\<exists>e\<in>set ((inst, port, net1) # new). fst (snd e) = fst q"
        by (rule cov')
    qed
  qed
qed

lemma lifted_old_portref:
  assumes l: "lifted (\<lambda>_. True) st st'"
    and pr: "pr \<in> set (inst_PortRefs (db_insts (g_db (fst st')) i))"
    and ext: "net_Owner (db_nets (g_db (fst st')) (snd pr)) \<noteq> inst_Owner (db_insts (g_db (fst st)) i)"
  shows "pr \<in> set (inst_PortRefs (db_insts (g_db (fst st)) i))"
proof -
  from lifted_portrefs [OF l, of i] obtain added where
    "inst_PortRefs (db_insts (g_db (fst st')) i) = inst_PortRefs (db_insts (g_db (fst st)) i) @ added"
    "\<forall>pr\<in>set added. net_Owner (db_nets (g_db (fst st')) (snd pr))
                        = inst_Owner (db_insts (g_db (fst st)) i)"
    by auto
  with pr ext show ?thesis by auto
qed

lemma lifted_portref_kept:
  assumes l: "lifted (\<lambda>_. True) st st'"
    and pr: "pr \<in> set (inst_PortRefs (db_insts (g_db (fst st)) i))"
  shows "pr \<in> set (inst_PortRefs (db_insts (g_db (fst st')) i))"
proof -
  from lifted_portrefs [OF l, of i] obtain added where
    "inst_PortRefs (db_insts (g_db (fst st')) i) = inst_PortRefs (db_insts (g_db (fst st)) i) @ added"
    by auto
  with pr show ?thesis by simp
qed

lemma fix_instances_lifted:
  "extnets_inv st \<Longrightarrow> hierarchy_levels (g_db (fst st)) level height \<Longrightarrow> height < fuel \<Longrightarrow>
   \<forall>i\<in>set insts. inst_Owner (db_insts (g_db (fst st)) i) = nl \<Longrightarrow>
   \<exists>st' new.
      fold_option (\<lambda>inst acc. fix_portrefs fuel nl inst
                                 (inst_PortRefs (db_insts (g_db (fst (fst acc))) inst)) acc)
        insts (st, todo) = Some (st', todo @ new)
      \<and> lifted (\<lambda>_. True) st st' \<and> extnets_inv st'
      \<and> (\<forall>e\<in>set new. fst e \<in> set insts \<and> snd (snd e) < g_next_net (fst st')
            \<and> (\<exists>n. (fst (snd e), n) \<in> set (inst_PortRefs (db_insts (g_db (fst st)) (fst e)))
                  \<and> IsExternalTo (db_nets (g_db (fst st)) n) nl
                  \<and> (NumOfRefs (g_db (fst st)) (net_Owner (db_nets (g_db (fst st)) n)) \<noteq> 1
                       \<longrightarrow> snd (snd e) = n)
                  \<and> ((\<exists>d. unique_path (g_db (fst st))
                             (net_Owner (db_nets (g_db (fst st)) n)) d nl)
                       \<longrightarrow> net_Owner (db_nets (g_db (fst st')) (snd (snd e))) = nl)))
      \<and> (\<forall>i\<in>set insts. \<forall>pr\<in>set (inst_PortRefs (db_insts (g_db (fst st')) i)).
            IsExternalTo (db_nets (g_db (fst st')) (snd pr)) nl
            \<longrightarrow> (\<exists>e\<in>set new. fst e = i \<and> fst (snd e) = fst pr))"
proof (induction insts arbitrary: st todo)
  case Nil
  then show ?case
    by (simp add: lifted_refl)
next
  case (Cons i insts)
  let ?db = "g_db (fst st)"
  let ?prs = "inst_PortRefs (db_insts ?db i)"
  from Cons.prems(4) have own_i: "inst_Owner (db_insts ?db i) = nl"
    and owns: "\<forall>j\<in>set insts. inst_Owner (db_insts ?db j) = nl"
    by simp_all
  from Cons.prems(1) have lts: "\<forall>pr\<in>set ?prs. snd pr < g_next_net (fst st)"
    by (simp add: extnets_inv_def)
  from fix_portrefs_lifted [OF Cons.prems(1) Cons.prems(2) Cons.prems(3) lts, of nl i todo]
  obtain st1 new1 where
    r1: "fix_portrefs fuel nl i ?prs (st, todo) = Some (st1, todo @ new1)"
    and l1: "lifted (\<lambda>_. True) st st1" and inv1: "extnets_inv st1"
    and ent1: "\<forall>e\<in>set new1. fst e = i \<and> snd (snd e) < g_next_net (fst st1)
            \<and> (\<exists>n. (fst (snd e), n) \<in> set ?prs
                  \<and> IsExternalTo (db_nets ?db n) nl
                  \<and> (NumOfRefs ?db (net_Owner (db_nets ?db n)) \<noteq> 1 \<longrightarrow> snd (snd e) = n)
                  \<and> ((\<exists>d. unique_path ?db (net_Owner (db_nets ?db n)) d nl)
                       \<longrightarrow> net_Owner (db_nets (g_db (fst st1)) (snd (snd e))) = nl))"
    and cov1: "\<forall>pr\<in>set ?prs. IsExternalTo (db_nets ?db (snd pr)) nl
            \<longrightarrow> (\<exists>e\<in>set new1. fst (snd e) = fst pr)"
    by blast
  let ?db1 = "g_db (fst st1)"
  note h1 = hierarchy_levels_lifted [OF l1 Cons.prems(2)]
  from owns have owns1: "\<forall>j\<in>set insts. inst_Owner (db_insts ?db1 j) = nl"
    by (simp add: lifted_inst_owner [OF l1])
  from Cons.IH [OF inv1 h1 Cons.prems(3) owns1, of "todo @ new1"]
  obtain st' new2 where
    r2: "fold_option (\<lambda>inst acc. fix_portrefs fuel nl inst
                                 (inst_PortRefs (db_insts (g_db (fst (fst acc))) inst)) acc)
           insts (st1, todo @ new1) = Some (st', (todo @ new1) @ new2)"
    and l2: "lifted (\<lambda>_. True) st1 st'" and inv': "extnets_inv st'"
    and ent2: "\<forall>e\<in>set new2. fst e \<in> set insts \<and> snd (snd e) < g_next_net (fst st')
            \<and> (\<exists>n. (fst (snd e), n) \<in> set (inst_PortRefs (db_insts ?db1 (fst e)))
                  \<and> IsExternalTo (db_nets ?db1 n) nl
                  \<and> (NumOfRefs ?db1 (net_Owner (db_nets ?db1 n)) \<noteq> 1 \<longrightarrow> snd (snd e) = n)
                  \<and> ((\<exists>d. unique_path ?db1 (net_Owner (db_nets ?db1 n)) d nl)
                       \<longrightarrow> net_Owner (db_nets (g_db (fst st')) (snd (snd e))) = nl))"
    and cov2: "\<forall>j\<in>set insts. \<forall>pr\<in>set (inst_PortRefs (db_insts (g_db (fst st')) j)).
            IsExternalTo (db_nets (g_db (fst st')) (snd pr)) nl
            \<longrightarrow> (\<exists>e\<in>set new2. fst e = j \<and> fst (snd e) = fst pr)"
    by blast
  note l = lifted_trans [OF l1 l2]
  from r1 r2 have run: "fold_option (\<lambda>inst acc. fix_portrefs fuel nl inst
                                 (inst_PortRefs (db_insts (g_db (fst (fst acc))) inst)) acc)
           (i # insts) (st, todo) = Some (st', todo @ (new1 @ new2))"
    by simp
  have e1: "fst e \<in> set (i # insts) \<and> snd (snd e) < g_next_net (fst st')
            \<and> (\<exists>n. (fst (snd e), n) \<in> set (inst_PortRefs (db_insts ?db (fst e)))
                  \<and> IsExternalTo (db_nets ?db n) nl
                  \<and> (NumOfRefs ?db (net_Owner (db_nets ?db n)) \<noteq> 1 \<longrightarrow> snd (snd e) = n)
                  \<and> ((\<exists>d. unique_path ?db (net_Owner (db_nets ?db n)) d nl)
                       \<longrightarrow> net_Owner (db_nets (g_db (fst st')) (snd (snd e))) = nl))"
    if "e \<in> set new1" for e
  proof -
    from ent1 that obtain n where
      e: "fst e = i" "snd (snd e) < g_next_net (fst st1)"
      and n: "(fst (snd e), n) \<in> set ?prs" "IsExternalTo (db_nets ?db n) nl"
        "NumOfRefs ?db (net_Owner (db_nets ?db n)) \<noteq> 1 \<longrightarrow> snd (snd e) = n"
        "(\<exists>d. unique_path ?db (net_Owner (db_nets ?db n)) d nl)
            \<longrightarrow> net_Owner (db_nets (g_db (fst st1)) (snd (snd e))) = nl"
      by blast
    from e(2) lifted_next [OF l2] have "snd (snd e) < g_next_net (fst st')" by simp
    with e n show ?thesis
      by (intro conjI exI [of _ n]) (simp_all add: lifted_owner [OF l2 e(2)])
  qed
  have e2: "fst e \<in> set (i # insts) \<and> snd (snd e) < g_next_net (fst st')
            \<and> (\<exists>n. (fst (snd e), n) \<in> set (inst_PortRefs (db_insts ?db (fst e)))
                  \<and> IsExternalTo (db_nets ?db n) nl
                  \<and> (NumOfRefs ?db (net_Owner (db_nets ?db n)) \<noteq> 1 \<longrightarrow> snd (snd e) = n)
                  \<and> ((\<exists>d. unique_path ?db (net_Owner (db_nets ?db n)) d nl)
                       \<longrightarrow> net_Owner (db_nets (g_db (fst st')) (snd (snd e))) = nl))"
    if "e \<in> set new2" for e
  proof -
    from ent2 that obtain n where
      e: "fst e \<in> set insts" "snd (snd e) < g_next_net (fst st')"
      and n: "(fst (snd e), n) \<in> set (inst_PortRefs (db_insts ?db1 (fst e)))"
        "IsExternalTo (db_nets ?db1 n) nl"
        "NumOfRefs ?db1 (net_Owner (db_nets ?db1 n)) \<noteq> 1 \<longrightarrow> snd (snd e) = n"
        "(\<exists>d. unique_path ?db1 (net_Owner (db_nets ?db1 n)) d nl)
            \<longrightarrow> net_Owner (db_nets (g_db (fst st')) (snd (snd e))) = nl"
      by blast
    from e(1) owns have own: "inst_Owner (db_insts ?db (fst e)) = nl" by simp
    from n(2) own have "net_Owner (db_nets ?db1 (snd (fst (snd e), n)))
                          \<noteq> inst_Owner (db_insts ?db (fst e))"
      by (simp add: IsExternalTo_def)
    from lifted_old_portref [OF l1 n(1) this]
    have old: "(fst (snd e), n) \<in> set (inst_PortRefs (db_insts ?db (fst e)))" .
    from extnets_inv_lt [OF Cons.prems(1) old] have ltn: "n < g_next_net (fst st)"
      by simp
    from e n old show ?thesis
      by (intro conjI exI [of _ n])
        (simp_all add: lifted_external [OF l1 ltn] lifted_refs [OF l1 ltn]
          lifted_path [OF l1 ltn])
  qed
  have cov_i: "\<exists>e\<in>set (new1 @ new2). fst e = i \<and> fst (snd e) = fst pr"
    if "pr \<in> set (inst_PortRefs (db_insts (g_db (fst st')) i))"
      "IsExternalTo (db_nets (g_db (fst st')) (snd pr)) nl" for pr
  proof -
    from that(2) own_i have "net_Owner (db_nets (g_db (fst st')) (snd pr))
                               \<noteq> inst_Owner (db_insts ?db i)"
      by (simp add: IsExternalTo_def)
    from lifted_old_portref [OF l that(1) this] have old: "pr \<in> set ?prs" .
    with lts have "snd pr < g_next_net (fst st)" by simp
    with that(2) have "IsExternalTo (db_nets ?db (snd pr)) nl"
      by (simp add: lifted_external [OF l])
    with cov1 old obtain e where "e \<in> set new1" "fst (snd e) = fst pr" by blast
    with ent1 show ?thesis by auto
  qed
  show ?case
  proof (intro exI [of _ st'] exI [of _ "new1 @ new2"] conjI ballI impI)
    show "fold_option (\<lambda>inst acc. fix_portrefs fuel nl inst
                                 (inst_PortRefs (db_insts (g_db (fst (fst acc))) inst)) acc)
           (i # insts) (st, todo) = Some (st', todo @ new1 @ new2)"
      by (rule run)
    show "lifted (\<lambda>_. True) st st'" by (rule l)
    show "extnets_inv st'" by (rule inv')
  next
    fix e assume "e \<in> set (new1 @ new2)"
    then consider "e \<in> set new1" | "e \<in> set new2" by auto
    then show "fst e \<in> set (i # insts)" using e1 e2 by cases blast+
  next
    fix e assume "e \<in> set (new1 @ new2)"
    then consider "e \<in> set new1" | "e \<in> set new2" by auto
    then show "snd (snd e) < g_next_net (fst st')" using e1 e2 by cases blast+
  next
    fix e assume "e \<in> set (new1 @ new2)"
    then consider "e \<in> set new1" | "e \<in> set new2" by auto
    then show "\<exists>n. (fst (snd e), n) \<in> set (inst_PortRefs (db_insts ?db (fst e)))
                  \<and> IsExternalTo (db_nets ?db n) nl
                  \<and> (NumOfRefs ?db (net_Owner (db_nets ?db n)) \<noteq> 1 \<longrightarrow> snd (snd e) = n)
                  \<and> ((\<exists>d. unique_path ?db (net_Owner (db_nets ?db n)) d nl)
                       \<longrightarrow> net_Owner (db_nets (g_db (fst st')) (snd (snd e))) = nl)"
      using e1 [of e] e2 [of e] by cases blast+
  next
    fix j pr
    assume j: "j \<in> set (i # insts)"
      and pr: "pr \<in> set (inst_PortRefs (db_insts (g_db (fst st')) j))"
      and ext: "IsExternalTo (db_nets (g_db (fst st')) (snd pr)) nl"
    show "\<exists>e\<in>set (new1 @ new2). fst e = j \<and> fst (snd e) = fst pr"
    proof (cases "j = i")
      case True
      with cov_i pr ext show ?thesis by simp
    next
      case False
      with j have "j \<in> set insts" by simp
      with cov2 pr ext obtain e where "e \<in> set new2" "fst e = j \<and> fst (snd e) = fst pr"
        by blast
      then show ?thesis by auto
    qed
  qed
qed

lemma connect_todo_insts:
  "db_insts (g_db (connect_todo g (ip, port, net))) i =
     (if i = ip
      then (db_insts (g_db g) ip)
             \<lparr>inst_PortRefs := filter (\<lambda>pr. fst pr \<noteq> port) (inst_PortRefs (db_insts (g_db g) ip))
                                 @ [(port, net)]\<rparr>
      else db_insts (g_db g) i)"
  by (simp add: connect_todo_def update_inst_def)

lemma connect_todo_rest:
  "db_netlists (g_db (connect_todo g e)) = db_netlists (g_db g)
   \<and> g_next_net (connect_todo g e) = g_next_net g
   \<and> inst_Owner (db_insts (g_db (connect_todo g e)) i) = inst_Owner (db_insts (g_db g) i)
   \<and> inst_View (db_insts (g_db (connect_todo g e)) i) = inst_View (db_insts (g_db g) i)"
  by (cases e) (simp add: connect_todo_def update_inst_def)

lemma connect_fold_rest:
  "db_nets (g_db (fold (\<lambda>e g'. connect_todo g' e) todo g)) = db_nets (g_db g)
   \<and> db_netlists (g_db (fold (\<lambda>e g'. connect_todo g' e) todo g)) = db_netlists (g_db g)
   \<and> g_next_net (fold (\<lambda>e g'. connect_todo g' e) todo g) = g_next_net g
   \<and> inst_Owner (db_insts (g_db (fold (\<lambda>e g'. connect_todo g' e) todo g)) i)
       = inst_Owner (db_insts (g_db g) i)
   \<and> inst_View (db_insts (g_db (fold (\<lambda>e g'. connect_todo g' e) todo g)) i)
       = inst_View (db_insts (g_db g) i)"
  by (induction todo arbitrary: g) (simp_all add: connect_todo_nets connect_todo_rest)

lemma connect_fold_other:
  "i \<notin> fst ` set todo \<Longrightarrow>
   db_insts (g_db (fold (\<lambda>e g'. connect_todo g' e) todo g)) i = db_insts (g_db g) i"
  by (induction todo arbitrary: g) (auto simp add: connect_todo_insts)

lemma connect_fold_portrefs:
  "pr \<in> set (inst_PortRefs (db_insts (g_db (fold (\<lambda>e g'. connect_todo g' e) todo g)) i)) \<Longrightarrow>
   (pr \<in> set (inst_PortRefs (db_insts (g_db g) i))
      \<and> (\<forall>e\<in>set todo. \<not> (fst e = i \<and> fst (snd e) = fst pr)))
   \<or> (i, fst pr, snd pr) \<in> set todo"
proof (induction todo arbitrary: pr rule: rev_induct)
  case Nil
  then show ?case by simp
next
  case (snoc x xs)
  obtain ip port net where x: "x = (ip, port, net)" by (cases x)
  let ?G = "fold (\<lambda>e g'. connect_todo g' e) xs g"
  from snoc.prems have mem:
    "pr \<in> set (inst_PortRefs (db_insts (g_db (connect_todo ?G (ip, port, net))) i))"
    by (simp add: x)
  show ?case
  proof (cases "i = ip")
    case False
    with mem have "pr \<in> set (inst_PortRefs (db_insts (g_db ?G) i))"
      by (simp add: connect_todo_insts)
    from snoc.IH [OF this] False show ?thesis
      by (auto simp add: x)
  next
    case True
    with mem have "(pr \<in> set (inst_PortRefs (db_insts (g_db ?G) i)) \<and> fst pr \<noteq> port)
                   \<or> pr = (port, net)"
      by (auto simp add: connect_todo_insts)
    then show ?thesis
    proof
      assume a: "pr \<in> set (inst_PortRefs (db_insts (g_db ?G) i)) \<and> fst pr \<noteq> port"
      with snoc.IH [of pr] show ?thesis
        by (auto simp add: x)
    next
      assume "pr = (port, net)"
      with True show ?thesis by (simp add: x)
    qed
  qed
qed

lemma connect_fold_kept:
  "(ip, port, net) \<in> set todo \<Longrightarrow> \<forall>n. (ip, port, n) \<in> set todo \<longrightarrow> n = net \<Longrightarrow>
   (port, net) \<in> set (inst_PortRefs (db_insts (g_db (fold (\<lambda>e g'. connect_todo g' e) todo g)) ip))"
proof (induction todo rule: rev_induct)
  case Nil
  then show ?case by simp
next
  case (snoc x xs)
  obtain ip' port' net' where x: "x = (ip', port', net')" by (cases x)
  let ?G = "fold (\<lambda>e g'. connect_todo g' e) xs g"
  show ?case
  proof (cases "ip' = ip \<and> port' = port")
    case True
    with snoc.prems(2) have "net' = net" by (simp add: x)
    with True show ?thesis
      by (simp add: x connect_todo_insts)
  next
    case False
    with snoc.prems have "(ip, port, net) \<in> set xs" "\<forall>n. (ip, port, n) \<in> set xs \<longrightarrow> n = net"
      by (auto simp add: x)
    from snoc.IH [OF this] False show ?thesis
      by (auto simp add: x connect_todo_insts)
  qed
qed

lemma connect_fold_lifted:
  assumes "\<forall>e\<in>set todo. \<not> P (fst e)"
  shows "lifted P (g, x) (fold (\<lambda>e g'. connect_todo g' e) todo g, x)"
proof -
  have "inst_PortRefs (db_insts (g_db (fold (\<lambda>e g'. connect_todo g' e) todo g)) i)
          = inst_PortRefs (db_insts (g_db g) i)" if "P i" for i
  proof -
    from that assms have "i \<notin> fst ` set todo" by auto
    then show ?thesis by (simp add: connect_fold_other)
  qed
  then show ?thesis
    by (simp add: lifted_def connect_fold_rest same_hierarchy_def)
qed

lemma connect_fold_inv:
  assumes inv: "extnets_inv (g, x)" and lt: "\<forall>e\<in>set todo. snd (snd e) < g_next_net g"
  shows "extnets_inv (fold (\<lambda>e g'. connect_todo g' e) todo g, x)"
proof -
  let ?G = "fold (\<lambda>e g'. connect_todo g' e) todo g"
  have same: "NumOfRefs (g_db ?G) = NumOfRefs (g_db g)" "up_netlist (g_db ?G) = up_netlist (g_db g)"
    by (rule ext; simp add: NumOfRefs_def up_netlist_def connect_fold_rest)+
  from inv have "extnets_wf (?G, x)"
    by (simp add: extnets_inv_def extnets_wf_def connect_fold_rest same)
  moreover have "snd pr < g_next_net ?G"
    if "pr \<in> set (inst_PortRefs (db_insts (g_db ?G) i))" for i pr
  proof -
    from connect_fold_portrefs [OF that]
    have "pr \<in> set (inst_PortRefs (db_insts (g_db g) i)) \<or> (i, fst pr, snd pr) \<in> set todo"
      by blast
    then show ?thesis
    proof
      assume "pr \<in> set (inst_PortRefs (db_insts (g_db g) i))"
      with extnets_inv_lt [OF inv, of pr i] show ?thesis
        by (simp add: connect_fold_rest)
    next
      assume "(i, fst pr, snd pr) \<in> set todo"
      with lt show ?thesis
        by (fastforce simp add: connect_fold_rest)
    qed
  qed
  ultimately show ?thesis
    by (simp add: extnets_inv_def)
qed

lemma views_run:
  assumes IH: "\<And>V s. extnets_inv s \<Longrightarrow> hierarchy_levels (g_db (fst s)) level height \<Longrightarrow>
        level V + height + 1 < f \<Longrightarrow>
        \<exists>s'. extnets_run f V s = Some s'
           \<and> lifted (\<lambda>i. level V < level (inst_Owner (db_insts (g_db (fst s)) i))) s s'
           \<and> extnets_inv s'"
  shows "extnets_inv s \<Longrightarrow> hierarchy_levels (g_db (fst s)) level height \<Longrightarrow>
     level nl + height < f \<Longrightarrow>
     \<forall>i\<in>set insts. level (inst_View (db_insts (g_db (fst s)) i)) < level nl \<Longrightarrow>
     \<exists>s1. fold_option (\<lambda>inst s. extnets_run f (inst_View (db_insts (g_db (fst s)) inst)) s)
             insts s = Some s1
       \<and> lifted (\<lambda>i. level nl \<le> level (inst_Owner (db_insts (g_db (fst s)) i))) s s1
       \<and> extnets_inv s1"
proof (induction insts arbitrary: s)
  case Nil
  then show ?case by (simp add: lifted_refl)
next
  case (Cons i insts)
  let ?V = "inst_View (db_insts (g_db (fst s)) i)"
  from Cons.prems(4) have lv: "level ?V < level nl"
    and lvs: "\<forall>j\<in>set insts. level (inst_View (db_insts (g_db (fst s)) j)) < level nl"
    by simp_all
  from lv Cons.prems(3) have "level ?V + height + 1 < f" by simp
  from IH [OF Cons.prems(1) Cons.prems(2) this] obtain s' where
    r1: "extnets_run f ?V s = Some s'"
    and l1': "lifted (\<lambda>i. level ?V < level (inst_Owner (db_insts (g_db (fst s)) i))) s s'"
    and inv1: "extnets_inv s'"
    by blast
  from lv have l1: "lifted (\<lambda>i. level nl \<le> level (inst_Owner (db_insts (g_db (fst s)) i))) s s'"
    by (intro lifted_weaken [OF l1']) simp
  note h1 = hierarchy_levels_lifted [OF l1 Cons.prems(2)]
  from lvs have lvs1: "\<forall>j\<in>set insts. level (inst_View (db_insts (g_db (fst s')) j)) < level nl"
    by (simp add: lifted_view [OF l1])
  from Cons.IH [OF inv1 h1 Cons.prems(3) lvs1] obtain s1 where
    r2: "fold_option (\<lambda>inst s. extnets_run f (inst_View (db_insts (g_db (fst s)) inst)) s)
             insts s' = Some s1"
    and l2': "lifted (\<lambda>i. level nl \<le> level (inst_Owner (db_insts (g_db (fst s')) i))) s' s1"
    and inv2: "extnets_inv s1"
    by blast
  from l2' have l2: "lifted (\<lambda>i. level nl \<le> level (inst_Owner (db_insts (g_db (fst s)) i))) s' s1"
    by (simp add: lifted_inst_owner [OF l1])
  from r1 r2 lifted_trans [OF l1 l2] inv2 show ?case
    by simp
qed

lemma extnets_run_phases:
  assumes IH: "\<And>V s. extnets_inv s \<Longrightarrow> hierarchy_levels (g_db (fst s)) level height \<Longrightarrow>
        level V + height + 1 < f \<Longrightarrow>
        \<exists>s'. extnets_run f V s = Some s'
           \<and> lifted (\<lambda>i. level V < level (inst_Owner (db_insts (g_db (fst s)) i))) s s'
           \<and> extnets_inv s'"
    and inv: "extnets_inv st"
    and h: "hierarchy_levels (g_db (fst st)) level height"
    and fuel: "level nl + height < f"
  shows "\<exists>st1 st2 todo.
      extnets_run (Suc f) nl st
        = Some (fold (\<lambda>e g'. connect_todo g' e) todo (fst st2), snd st2)
      \<and> lifted (\<lambda>i. level nl \<le> level (inst_Owner (db_insts (g_db (fst st)) i))) st st1
      \<and> extnets_inv st1
      \<and> lifted (\<lambda>_. True) st1 st2 \<and> extnets_inv st2
      \<and> (\<forall>e\<in>set todo. fst e \<in> set (nl_Instances (db_netlists (g_db (fst st)) nl))
            \<and> snd (snd e) < g_next_net (fst st2)
            \<and> (\<exists>n. (fst (snd e), n) \<in> set (inst_PortRefs (db_insts (g_db (fst st1)) (fst e)))
                  \<and> IsExternalTo (db_nets (g_db (fst st1)) n) nl
                  \<and> (NumOfRefs (g_db (fst st1)) (net_Owner (db_nets (g_db (fst st1)) n)) \<noteq> 1
                       \<longrightarrow> snd (snd e) = n)
                  \<and> ((\<exists>d. unique_path (g_db (fst st1))
                             (net_Owner (db_nets (g_db (fst st1)) n)) d nl)
                       \<longrightarrow> net_Owner (db_nets (g_db (fst st2)) (snd (snd e))) = nl)))
      \<and> (\<forall>i\<in>set (nl_Instances (db_netlists (g_db (fst st)) nl)).
           \<forall>pr\<in>set (inst_PortRefs (db_insts (g_db (fst st2)) i)).
            IsExternalTo (db_nets (g_db (fst st2)) (snd pr)) nl
            \<longrightarrow> (\<exists>e\<in>set todo. fst e = i \<and> fst (snd e) = fst pr))"
proof -
  let ?db = "g_db (fst st)"
  let ?insts = "nl_Instances (db_netlists ?db nl)"
  from h have own: "\<forall>i\<in>set ?insts. inst_Owner (db_insts ?db i) = nl"
    and lvs: "\<forall>i\<in>set ?insts. level (inst_View (db_insts ?db i)) < level nl"
    by (simp_all add: hierarchy_levels_def)
  from views_run [OF IH inv h fuel lvs] obtain st1 where
    r1: "fold_option (\<lambda>inst s. extnets_run f (inst_View (db_insts (g_db (fst s)) inst)) s)
             ?insts st = Some st1"
    and l1: "lifted (\<lambda>i. level nl \<le> level (inst_Owner (db_insts ?db i))) st st1"
    and inv1: "extnets_inv st1"
    by blast
  note h1 = hierarchy_levels_lifted [OF l1 h]
  from fuel have hf: "height < f" by simp
  from own have own1: "\<forall>i\<in>set ?insts. inst_Owner (db_insts (g_db (fst st1)) i) = nl"
    by (simp add: lifted_inst_owner [OF l1])
  from fix_instances_lifted [OF inv1 h1 hf own1, of "[]", unfolded append_Nil]
  obtain st2 todo where
    r2: "fold_option (\<lambda>inst acc. fix_portrefs f nl inst
                                 (inst_PortRefs (db_insts (g_db (fst (fst acc))) inst)) acc)
           ?insts (st1, []) = Some (st2, todo)"
    and rest: "lifted (\<lambda>_. True) st1 st2" "extnets_inv st2"
      "\<forall>e\<in>set todo. fst e \<in> set ?insts
            \<and> snd (snd e) < g_next_net (fst st2)
            \<and> (\<exists>n. (fst (snd e), n) \<in> set (inst_PortRefs (db_insts (g_db (fst st1)) (fst e)))
                  \<and> IsExternalTo (db_nets (g_db (fst st1)) n) nl
                  \<and> (NumOfRefs (g_db (fst st1)) (net_Owner (db_nets (g_db (fst st1)) n)) \<noteq> 1
                       \<longrightarrow> snd (snd e) = n)
                  \<and> ((\<exists>d. unique_path (g_db (fst st1))
                             (net_Owner (db_nets (g_db (fst st1)) n)) d nl)
                       \<longrightarrow> net_Owner (db_nets (g_db (fst st2)) (snd (snd e))) = nl))"
      "\<forall>i\<in>set ?insts.
           \<forall>pr\<in>set (inst_PortRefs (db_insts (g_db (fst st2)) i)).
            IsExternalTo (db_nets (g_db (fst st2)) (snd pr)) nl
            \<longrightarrow> (\<exists>e\<in>set todo. fst e = i \<and> fst (snd e) = fst pr)"
    by blast
  from r1 r2 have "extnets_run (Suc f) nl st
        = Some (fold (\<lambda>e g'. connect_todo g' e) todo (fst st2), snd st2)"
    by (cases st2) (simp add: lifted_instances [OF l1])
  with l1 inv1 rest show ?thesis
    by blast
qed

lemma extnets_run_lifted:
  "extnets_inv st \<Longrightarrow> hierarchy_levels (g_db (fst st)) level height \<Longrightarrow>
   level nl + height + 1 < fuel \<Longrightarrow>
   \<exists>st'. extnets_run fuel nl st = Some st'
      \<and> lifted (\<lambda>i. level nl < level (inst_Owner (db_insts (g_db (fst st)) i))) st st'
      \<and> extnets_inv st'"
proof (induction fuel arbitrary: nl st)
  case 0
  then show ?case by simp
next
  case (Suc f)
  let ?db = "g_db (fst st)"
  let ?P = "\<lambda>i. level nl < level (inst_Owner (db_insts ?db i))"
  from Suc.prems(3) have fuel: "level nl + height < f" by simp
  from extnets_run_phases [of level height f, OF Suc.IH Suc.prems(1) Suc.prems(2) fuel]
  obtain st1 st2 todo where
    run: "extnets_run (Suc f) nl st
            = Some (fold (\<lambda>e g'. connect_todo g' e) todo (fst st2), snd st2)"
    and l1: "lifted (\<lambda>i. level nl \<le> level (inst_Owner (db_insts ?db i))) st st1"
    and l2: "lifted (\<lambda>_. True) st1 st2" and inv2: "extnets_inv st2"
    and ent: "\<forall>e\<in>set todo. fst e \<in> set (nl_Instances (db_netlists ?db nl))
            \<and> snd (snd e) < g_next_net (fst st2)"
    by blast
  let ?st' = "(fold (\<lambda>e g'. connect_todo g' e) todo (fst st2), snd st2)"
  from Suc.prems(2) have own: "\<forall>i\<in>set (nl_Instances (db_netlists ?db nl)).
                                  inst_Owner (db_insts ?db i) = nl"
    by (simp add: hierarchy_levels_def)
  with ent have "\<forall>e\<in>set todo. \<not> ?P (fst e)"
    by auto
  from connect_fold_lifted [of todo ?P "fst st2" "snd st2", OF this]
  have l3: "lifted ?P st2 ?st'" by simp
  have "lifted ?P st st1" by (rule lifted_weaken [OF l1]) simp
  moreover have "lifted ?P st1 st2" by (rule lifted_weaken [OF l2]) simp
  ultimately have "lifted ?P st ?st'"
    using l3 by (blast intro: lifted_trans)
  moreover from ent inv2 have "extnets_inv ?st'"
    by (intro connect_fold_inv) simp_all
  ultimately show ?case
    using run by simp
qed

lemma lifted_old_selected:
  assumes l: "lifted P st st'" and sel: "P i"
    and pr: "pr \<in> set (inst_PortRefs (db_insts (g_db (fst st')) i))"
    and ext: "net_Owner (db_nets (g_db (fst st')) (snd pr)) \<noteq> inst_Owner (db_insts (g_db (fst st)) i)"
  shows "pr \<in> set (inst_PortRefs (db_insts (g_db (fst st)) i))"
proof -
  from lifted_portrefs [OF l sel] obtain added where
    "inst_PortRefs (db_insts (g_db (fst st')) i) = inst_PortRefs (db_insts (g_db (fst st)) i) @ added"
    "\<forall>pr\<in>set added. net_Owner (db_nets (g_db (fst st')) (snd pr))
                        = inst_Owner (db_insts (g_db (fst st)) i)"
    by auto
  with pr ext show ?thesis by auto
qed

lemma lifted_kept_selected:
  assumes l: "lifted P st st'" and sel: "P i"
    and pr: "pr \<in> set (inst_PortRefs (db_insts (g_db (fst st)) i))"
  shows "pr \<in> set (inst_PortRefs (db_insts (g_db (fst st')) i))"
proof -
  from lifted_portrefs [OF l sel] obtain added where
    "inst_PortRefs (db_insts (g_db (fst st')) i) = inst_PortRefs (db_insts (g_db (fst st)) i) @ added"
    by auto
  with pr show ?thesis by simp
qed

lemma connect_fold_present:
  "(\<exists>n. (port, n) \<in> set (inst_PortRefs (db_insts (g_db g) ip))) \<or> (\<exists>n. (ip, port, n) \<in> set todo)
   \<Longrightarrow> \<exists>n. (port, n) \<in> set (inst_PortRefs
                               (db_insts (g_db (fold (\<lambda>e g'. connect_todo g' e) todo g)) ip))"
proof (induction todo rule: rev_induct)
  case Nil
  then show ?case by simp
next
  case (snoc x xs)
  obtain ip' port' net' where x: "x = (ip', port', net')" by (cases x)
  show ?case
  proof (cases "ip' = ip \<and> port' = port")
    case True
    then show ?thesis
      by (auto simp add: x connect_todo_insts)
  next
    case False
    with snoc.prems have "(\<exists>n. (port, n) \<in> set (inst_PortRefs (db_insts (g_db g) ip)))
                          \<or> (\<exists>n. (ip, port, n) \<in> set xs)"
      by (auto simp add: x)
    from snoc.IH [OF this] False show ?thesis
      by (auto simp add: x connect_todo_insts)
  qed
qed

lemma extnets_wf_not_lifted:
  "extnets_wf st \<Longrightarrow>
   NumOfRefs (g_db (fst st)) (net_Owner (db_nets (g_db (fst st)) n)) \<noteq> 1 \<Longrightarrow>
   net_level_up (snd st) n = None"
  by (cases "net_level_up (snd st) n") (auto simp add: extnets_wf_def)

text \<open>
  What a run of the resolver on \<open>nl\<close> does to the port references of the instances of
  \<open>nl\<close>, in a hierarchy with levels and with fuel above the level of \<open>nl\<close> plus the
  height.
\<close>

lemma extnets_run_references:
  assumes inv: "extnets_inv st"
    and h: "hierarchy_levels (g_db (fst st)) level height"
    and fuel: "level nl + height + 1 < fuel"
  shows "\<exists>st'. extnets_run fuel nl st = Some st'
      \<and> lifted (\<lambda>i. level nl < level (inst_Owner (db_insts (g_db (fst st)) i))) st st'
      \<and> extnets_inv st'
      \<and> (\<forall>ip\<in>set (nl_Instances (db_netlists (g_db (fst st)) nl)).
           \<forall>q\<in>set (inst_PortRefs (db_insts (g_db (fst st')) ip)).
             \<not> IsExternalTo (db_nets (g_db (fst st')) (snd q)) nl
             \<or> (\<exists>n. (fst q, n) \<in> set (inst_PortRefs (db_insts (g_db (fst st)) ip))
                   \<and> IsExternalTo (db_nets (g_db (fst st)) n) nl
                   \<and> \<not> (\<exists>d. unique_path (g_db (fst st))
                                (net_Owner (db_nets (g_db (fst st)) n)) d nl)))
      \<and> (\<forall>ip\<in>set (nl_Instances (db_netlists (g_db (fst st)) nl)).
           \<forall>pr\<in>set (inst_PortRefs (db_insts (g_db (fst st)) ip)).
             (\<exists>n. (fst pr, n) \<in> set (inst_PortRefs (db_insts (g_db (fst st')) ip))))
      \<and> (\<forall>ip\<in>set (nl_Instances (db_netlists (g_db (fst st)) nl)).
           \<forall>pr\<in>set (inst_PortRefs (db_insts (g_db (fst st)) ip)).
             distinct (map fst (inst_PortRefs (db_insts (g_db (fst st)) ip)))
             \<and> IsExternalTo (db_nets (g_db (fst st)) (snd pr)) nl
             \<and> NumOfRefs (g_db (fst st)) (net_Owner (db_nets (g_db (fst st)) (snd pr))) \<noteq> 1
             \<longrightarrow> pr \<in> set (inst_PortRefs (db_insts (g_db (fst st')) ip)))"
proof -
  let ?db = "g_db (fst st)"
  let ?insts = "nl_Instances (db_netlists ?db nl)"
  from fuel obtain f where f: "fuel = Suc f" and fl: "level nl + height < f"
    by (cases fuel) auto
  have IH: "\<And>V s. extnets_inv s \<Longrightarrow> hierarchy_levels (g_db (fst s)) level height \<Longrightarrow>
        level V + height + 1 < f \<Longrightarrow>
        \<exists>s'. extnets_run f V s = Some s'
           \<and> lifted (\<lambda>i. level V < level (inst_Owner (db_insts (g_db (fst s)) i))) s s'
           \<and> extnets_inv s'"
    by (rule extnets_run_lifted)
  from extnets_run_phases [of level height f, OF IH inv h fl]
  obtain st1 st2 todo where
    run: "extnets_run (Suc f) nl st
            = Some (fold (\<lambda>e g'. connect_todo g' e) todo (fst st2), snd st2)"
    and l1: "lifted (\<lambda>i. level nl \<le> level (inst_Owner (db_insts ?db i))) st st1"
    and inv1: "extnets_inv st1"
    and l2: "lifted (\<lambda>_. True) st1 st2" and inv2: "extnets_inv st2"
    and ent: "\<forall>e\<in>set todo. fst e \<in> set ?insts
            \<and> snd (snd e) < g_next_net (fst st2)
            \<and> (\<exists>n. (fst (snd e), n) \<in> set (inst_PortRefs (db_insts (g_db (fst st1)) (fst e)))
                  \<and> IsExternalTo (db_nets (g_db (fst st1)) n) nl
                  \<and> (NumOfRefs (g_db (fst st1)) (net_Owner (db_nets (g_db (fst st1)) n)) \<noteq> 1
                       \<longrightarrow> snd (snd e) = n)
                  \<and> ((\<exists>d. unique_path (g_db (fst st1))
                             (net_Owner (db_nets (g_db (fst st1)) n)) d nl)
                       \<longrightarrow> net_Owner (db_nets (g_db (fst st2)) (snd (snd e))) = nl))"
    and cov: "\<forall>i\<in>set ?insts.
           \<forall>pr\<in>set (inst_PortRefs (db_insts (g_db (fst st2)) i)).
            IsExternalTo (db_nets (g_db (fst st2)) (snd pr)) nl
            \<longrightarrow> (\<exists>e\<in>set todo. fst e = i \<and> fst (snd e) = fst pr)"
    by blast
  let ?db1 = "g_db (fst st1)"
  let ?db2 = "g_db (fst st2)"
  let ?G = "fold (\<lambda>e g'. connect_todo g' e) todo (fst st2)"
  let ?st' = "(?G, snd st2)"
  from extnets_run_lifted [OF inv h fuel] run f have
    l: "lifted (\<lambda>i. level nl < level (inst_Owner (db_insts ?db i))) st ?st'"
    and inv': "extnets_inv ?st'"
    by simp_all
  from h have own: "\<And>i. i \<in> set ?insts \<Longrightarrow> inst_Owner (db_insts ?db i) = nl"
    by (simp add: hierarchy_levels_def)
  have nets': "db_nets (g_db ?G) = db_nets ?db2"
    by (simp add: connect_fold_rest)
  have old1: "pr \<in> set (inst_PortRefs (db_insts ?db ip))"
    if "ip \<in> set ?insts" "pr \<in> set (inst_PortRefs (db_insts ?db1 ip))"
      "IsExternalTo (db_nets ?db1 (snd pr)) nl" for ip pr
  proof -
    from that(1) have sel: "level nl \<le> level (inst_Owner (db_insts ?db ip))"
      by (simp add: own)
    from that(3) own [OF that(1)]
    have "net_Owner (db_nets ?db1 (snd pr)) \<noteq> inst_Owner (db_insts ?db ip)"
      by (simp add: IsExternalTo_def)
    from lifted_old_selected [OF l1 sel that(2) this] show ?thesis .
  qed
  have kept2: "pr \<in> set (inst_PortRefs (db_insts ?db2 ip))"
    if "ip \<in> set ?insts" "pr \<in> set (inst_PortRefs (db_insts ?db ip))" for ip pr
  proof -
    from that(1) have sel: "level nl \<le> level (inst_Owner (db_insts ?db ip))"
      by (simp add: own)
    from lifted_kept_selected [OF l1 sel that(2)]
    have "pr \<in> set (inst_PortRefs (db_insts ?db1 ip))" .
    from lifted_portref_kept [OF l2 this] show ?thesis .
  qed
  have origin: "\<exists>n. (fst (snd e), n) \<in> set (inst_PortRefs (db_insts ?db (fst e)))
                  \<and> IsExternalTo (db_nets ?db n) nl
                  \<and> (NumOfRefs ?db (net_Owner (db_nets ?db n)) \<noteq> 1 \<longrightarrow> snd (snd e) = n)
                  \<and> ((\<exists>d. unique_path ?db (net_Owner (db_nets ?db n)) d nl)
                       \<longrightarrow> net_Owner (db_nets ?db2 (snd (snd e))) = nl)"
    if "e \<in> set todo" for e
  proof -
    from ent that obtain n where
      e: "fst e \<in> set ?insts"
      and n: "(fst (snd e), n) \<in> set (inst_PortRefs (db_insts ?db1 (fst e)))"
        "IsExternalTo (db_nets ?db1 n) nl"
        "NumOfRefs ?db1 (net_Owner (db_nets ?db1 n)) \<noteq> 1 \<longrightarrow> snd (snd e) = n"
        "(\<exists>d. unique_path ?db1 (net_Owner (db_nets ?db1 n)) d nl)
            \<longrightarrow> net_Owner (db_nets ?db2 (snd (snd e))) = nl"
      by blast
    from old1 [OF e n(1)] n(2)
    have old: "(fst (snd e), n) \<in> set (inst_PortRefs (db_insts ?db (fst e)))"
      by simp
    from extnets_inv_lt [OF inv old] have ltn: "n < g_next_net (fst st)" by simp
    from n old show ?thesis
      by (intro exI [of _ n] conjI)
        (simp_all add: lifted_external [OF l1 ltn] lifted_refs [OF l1 ltn]
          lifted_path [OF l1 ltn])
  qed
  have ext2: "IsExternalTo (db_nets ?db2 n) nl = IsExternalTo (db_nets ?db n) nl"
    if "n < g_next_net (fst st)" for n
  proof -
    from that lifted_next [OF l1] have "n < g_next_net (fst st1)" by simp
    from lifted_external [OF l2 this] lifted_external [OF l1 that] show ?thesis
      by simp
  qed
  have A: "\<not> IsExternalTo (db_nets (g_db ?G) (snd q)) nl
             \<or> (\<exists>n. (fst q, n) \<in> set (inst_PortRefs (db_insts ?db ip))
                   \<and> IsExternalTo (db_nets ?db n) nl
                   \<and> \<not> (\<exists>d. unique_path ?db (net_Owner (db_nets ?db n)) d nl))"
    if ip: "ip \<in> set ?insts" and q: "q \<in> set (inst_PortRefs (db_insts (g_db ?G) ip))" for ip q
  proof -
    from connect_fold_portrefs [OF q]
    consider "q \<in> set (inst_PortRefs (db_insts ?db2 ip))"
        "\<forall>e\<in>set todo. \<not> (fst e = ip \<and> fst (snd e) = fst q)"
      | "(ip, fst q, snd q) \<in> set todo"
      by blast
    then show ?thesis
    proof cases
      case 1
      with cov ip have "\<not> IsExternalTo (db_nets ?db2 (snd q)) nl"
        by blast
      then show ?thesis by (simp add: nets')
    next
      case 2
      from origin [OF 2] obtain n where
        "(fst q, n) \<in> set (inst_PortRefs (db_insts ?db ip))"
        "IsExternalTo (db_nets ?db n) nl"
        "(\<exists>d. unique_path ?db (net_Owner (db_nets ?db n)) d nl)
            \<longrightarrow> net_Owner (db_nets ?db2 (snd q)) = nl"
        by auto
      then show ?thesis
        by (auto simp add: nets' IsExternalTo_def)
    qed
  qed
  have B: "\<exists>n. (fst pr, n) \<in> set (inst_PortRefs (db_insts (g_db ?G) ip))"
    if ip: "ip \<in> set ?insts" and pr: "pr \<in> set (inst_PortRefs (db_insts ?db ip))" for ip pr
  proof -
    from kept2 [OF ip pr] have "(fst pr, snd pr) \<in> set (inst_PortRefs (db_insts ?db2 ip))"
      by simp
    then have "\<exists>n. (fst pr, n) \<in> set (inst_PortRefs (db_insts ?db2 ip))" ..
    then show ?thesis
      by (intro connect_fold_present disjI1)
  qed
  have C: "pr \<in> set (inst_PortRefs (db_insts (g_db ?G) ip))"
    if ip: "ip \<in> set ?insts" and pr: "pr \<in> set (inst_PortRefs (db_insts ?db ip))"
      and dist: "distinct (map fst (inst_PortRefs (db_insts ?db ip)))"
      and ext: "IsExternalTo (db_nets ?db (snd pr)) nl"
      and refs: "NumOfRefs ?db (net_Owner (db_nets ?db (snd pr))) \<noteq> 1" for ip pr
  proof -
    from extnets_inv_lt [OF inv pr] have lt: "snd pr < g_next_net (fst st)" .
    have only: "n = snd pr" if "(ip, fst pr, n) \<in> set todo" for n
    proof -
      from origin [OF that] obtain m where
        m: "(fst pr, m) \<in> set (inst_PortRefs (db_insts ?db ip))"
          "NumOfRefs ?db (net_Owner (db_nets ?db m)) \<noteq> 1 \<longrightarrow> n = m"
        by auto
      from pr have "(fst pr, snd pr) \<in> set (inst_PortRefs (db_insts ?db ip))" by simp
      from eq_key_imp_eq_value [OF dist m(1) this] have "m = snd pr" .
      with m(2) refs show ?thesis by simp
    qed
    from ext lt have "IsExternalTo (db_nets ?db2 (snd pr)) nl"
      by (simp add: ext2)
    with cov ip kept2 [OF ip pr] obtain e where
      e: "e \<in> set todo" "fst e = ip" "fst (snd e) = fst pr"
      by blast
    then have "(ip, fst pr, snd (snd e)) \<in> set todo"
      by (metis prod.collapse)
    with only have "(ip, fst pr, snd pr) \<in> set todo"
      by auto
    from connect_fold_kept [OF this] only
    have "(fst pr, snd pr) \<in> set (inst_PortRefs (db_insts (g_db ?G) ip))"
      by blast
    then show ?thesis by simp
  qed
  from run f l inv' A B C show ?thesis
    by (intro exI [of _ ?st']) (simp del: fold_simps)
qed

text \<open>
  C9. A run of the resolver on the netlist \<open>nl\<close> returns, in a hierarchy with levels
  and with fuel above the level of \<open>nl\<close> plus the height of the hierarchy, and it
  leaves the port references of the instances of \<open>nl\<close> as follows. A reference to a
  net that is external to \<open>nl\<close> and whose owner does not have exactly one reference
  (it is instantiated more than once, or never) is still there after the run and still
  external; the net is as it was, its owner has the ports it had, and the map holds no
  lifted net for it. Every port that had a reference has one after the run. A reference
  that is external to \<open>nl\<close> after the run is on a port that referred to an external
  net whose owner has no unique instantiation path up to \<open>nl\<close>; so when every
  external net has such a path, no reference of an instance of \<open>nl\<close> is external
  after the run.
\<close>

theorem extnets_run_resolution:
  "extnets_inv st \<and> hierarchy_levels (g_db (fst st)) level height
     \<and> level nl + height + 1 < fuel
   \<longrightarrow> (\<exists>st'. extnets_run fuel nl st = Some st'
        \<and> (\<forall>ip\<in>set (nl_Instances (db_netlists (g_db (fst st)) nl)).
             \<forall>pr\<in>set (inst_PortRefs (db_insts (g_db (fst st)) ip)).
               (distinct (map fst (inst_PortRefs (db_insts (g_db (fst st)) ip)))
                  \<and> IsExternalTo (db_nets (g_db (fst st)) (snd pr)) nl
                  \<and> NumOfRefs (g_db (fst st)) (net_Owner (db_nets (g_db (fst st)) (snd pr))) \<noteq> 1
                \<longrightarrow> pr \<in> set (inst_PortRefs (db_insts (g_db (fst st')) ip))
                  \<and> IsExternalTo (db_nets (g_db (fst st')) (snd pr)) nl
                  \<and> db_nets (g_db (fst st')) (snd pr) = db_nets (g_db (fst st)) (snd pr)
                  \<and> nl_Ports (db_netlists (g_db (fst st'))
                                (net_Owner (db_nets (g_db (fst st)) (snd pr))))
                      = nl_Ports (db_netlists (g_db (fst st))
                                    (net_Owner (db_nets (g_db (fst st)) (snd pr))))
                  \<and> net_level_up (snd st') (snd pr) = None)
               \<and> (\<exists>n. (fst pr, n) \<in> set (inst_PortRefs (db_insts (g_db (fst st')) ip))))
        \<and> (\<forall>ip\<in>set (nl_Instances (db_netlists (g_db (fst st)) nl)).
             \<forall>q\<in>set (inst_PortRefs (db_insts (g_db (fst st')) ip)).
               IsExternalTo (db_nets (g_db (fst st')) (snd q)) nl \<longrightarrow>
               (\<exists>n. (fst q, n) \<in> set (inst_PortRefs (db_insts (g_db (fst st)) ip))
                   \<and> IsExternalTo (db_nets (g_db (fst st)) n) nl
                   \<and> \<not> (\<exists>d. unique_path (g_db (fst st))
                                (net_Owner (db_nets (g_db (fst st)) n)) d nl)))
        \<and> ((\<forall>ip\<in>set (nl_Instances (db_netlists (g_db (fst st)) nl)).
              \<forall>pr\<in>set (inst_PortRefs (db_insts (g_db (fst st)) ip)).
                IsExternalTo (db_nets (g_db (fst st)) (snd pr)) nl \<longrightarrow>
                (\<exists>d. unique_path (g_db (fst st))
                       (net_Owner (db_nets (g_db (fst st)) (snd pr))) d nl))
            \<longrightarrow> no_external (g_db (fst st')) nl))"
proof (intro impI)
  assume a: "extnets_inv st \<and> hierarchy_levels (g_db (fst st)) level height
     \<and> level nl + height + 1 < fuel"
  then have inv: "extnets_inv st" and h: "hierarchy_levels (g_db (fst st)) level height"
    and fuel: "level nl + height + 1 < fuel"
    by simp_all
  let ?db = "g_db (fst st)"
  let ?insts = "nl_Instances (db_netlists ?db nl)"
  from extnets_run_references [OF inv h fuel] obtain st' where
    run: "extnets_run fuel nl st = Some st'"
    and l: "lifted (\<lambda>i. level nl < level (inst_Owner (db_insts ?db i))) st st'"
    and inv': "extnets_inv st'"
    and left: "\<forall>ip\<in>set ?insts. \<forall>q\<in>set (inst_PortRefs (db_insts (g_db (fst st')) ip)).
             \<not> IsExternalTo (db_nets (g_db (fst st')) (snd q)) nl
             \<or> (\<exists>n. (fst q, n) \<in> set (inst_PortRefs (db_insts ?db ip))
                   \<and> IsExternalTo (db_nets ?db n) nl
                   \<and> \<not> (\<exists>d. unique_path ?db (net_Owner (db_nets ?db n)) d nl))"
    and present: "\<forall>ip\<in>set ?insts. \<forall>pr\<in>set (inst_PortRefs (db_insts ?db ip)).
             (\<exists>n. (fst pr, n) \<in> set (inst_PortRefs (db_insts (g_db (fst st')) ip)))"
    and kept: "\<forall>ip\<in>set ?insts. \<forall>pr\<in>set (inst_PortRefs (db_insts ?db ip)).
             distinct (map fst (inst_PortRefs (db_insts ?db ip)))
             \<and> IsExternalTo (db_nets ?db (snd pr)) nl
             \<and> NumOfRefs ?db (net_Owner (db_nets ?db (snd pr))) \<noteq> 1
             \<longrightarrow> pr \<in> set (inst_PortRefs (db_insts (g_db (fst st')) ip))"
    by blast
  let ?db' = "g_db (fst st')"
  have first: "pr \<in> set (inst_PortRefs (db_insts ?db' ip))
                  \<and> IsExternalTo (db_nets ?db' (snd pr)) nl
                  \<and> db_nets ?db' (snd pr) = db_nets ?db (snd pr)
                  \<and> nl_Ports (db_netlists ?db' (net_Owner (db_nets ?db (snd pr))))
                      = nl_Ports (db_netlists ?db (net_Owner (db_nets ?db (snd pr))))
                  \<and> net_level_up (snd st') (snd pr) = None"
    if ip: "ip \<in> set ?insts" and pr: "pr \<in> set (inst_PortRefs (db_insts ?db ip))"
      and hyp: "distinct (map fst (inst_PortRefs (db_insts ?db ip)))
                  \<and> IsExternalTo (db_nets ?db (snd pr)) nl
                  \<and> NumOfRefs ?db (net_Owner (db_nets ?db (snd pr))) \<noteq> 1" for ip pr
  proof -
    from extnets_inv_lt [OF inv pr] have lt: "snd pr < g_next_net (fst st)" .
    from hyp have refs: "NumOfRefs ?db (net_Owner (db_nets ?db (snd pr))) \<noteq> 1" by simp
    from l lt refs have same: "db_nets ?db' (snd pr) = db_nets ?db (snd pr)"
      by (simp add: lifted_def)
    from l refs have ports: "nl_Ports (db_netlists ?db' (net_Owner (db_nets ?db (snd pr))))
                      = nl_Ports (db_netlists ?db (net_Owner (db_nets ?db (snd pr))))"
      by (simp add: lifted_def)
    from refs have "NumOfRefs ?db' (net_Owner (db_nets ?db' (snd pr))) \<noteq> 1"
      by (simp add: lifted_refs [OF l lt])
    with inv' have "net_level_up (snd st') (snd pr) = None"
      by (intro extnets_wf_not_lifted) (simp_all add: extnets_inv_def)
    with kept ip pr hyp same ports show ?thesis
      by simp
  qed
  have none: "no_external ?db' nl"
    if uniq: "\<forall>ip\<in>set ?insts. \<forall>pr\<in>set (inst_PortRefs (db_insts ?db ip)).
                IsExternalTo (db_nets ?db (snd pr)) nl \<longrightarrow>
                (\<exists>d. unique_path ?db (net_Owner (db_nets ?db (snd pr))) d nl)"
    unfolding no_external_def
  proof (intro ballI)
    fix ip q
    assume ip': "ip \<in> set (nl_Instances (db_netlists ?db' nl))"
      and q: "q \<in> set (inst_PortRefs (db_insts ?db' ip))"
    from ip' have ip: "ip \<in> set ?insts"
      by (simp add: lifted_instances [OF l])
    show "\<not> IsExternalTo (db_nets ?db' (snd q)) nl"
    proof
      assume "IsExternalTo (db_nets ?db' (snd q)) nl"
      with left ip q obtain n where
        "(fst q, n) \<in> set (inst_PortRefs (db_insts ?db ip))"
        "IsExternalTo (db_nets ?db n) nl"
        "\<not> (\<exists>d. unique_path ?db (net_Owner (db_nets ?db n)) d nl)"
        by blast
      with uniq ip show False by fastforce
    qed
  qed
  show "\<exists>st'. extnets_run fuel nl st = Some st'
        \<and> (\<forall>ip\<in>set ?insts.
             \<forall>pr\<in>set (inst_PortRefs (db_insts ?db ip)).
               (distinct (map fst (inst_PortRefs (db_insts ?db ip)))
                  \<and> IsExternalTo (db_nets ?db (snd pr)) nl
                  \<and> NumOfRefs ?db (net_Owner (db_nets ?db (snd pr))) \<noteq> 1
                \<longrightarrow> pr \<in> set (inst_PortRefs (db_insts (g_db (fst st')) ip))
                  \<and> IsExternalTo (db_nets (g_db (fst st')) (snd pr)) nl
                  \<and> db_nets (g_db (fst st')) (snd pr) = db_nets ?db (snd pr)
                  \<and> nl_Ports (db_netlists (g_db (fst st'))
                                (net_Owner (db_nets ?db (snd pr))))
                      = nl_Ports (db_netlists ?db
                                    (net_Owner (db_nets ?db (snd pr))))
                  \<and> net_level_up (snd st') (snd pr) = None)
               \<and> (\<exists>n. (fst pr, n) \<in> set (inst_PortRefs (db_insts (g_db (fst st')) ip))))
        \<and> (\<forall>ip\<in>set ?insts.
             \<forall>q\<in>set (inst_PortRefs (db_insts (g_db (fst st')) ip)).
               IsExternalTo (db_nets (g_db (fst st')) (snd q)) nl \<longrightarrow>
               (\<exists>n. (fst q, n) \<in> set (inst_PortRefs (db_insts ?db ip))
                   \<and> IsExternalTo (db_nets ?db n) nl
                   \<and> \<not> (\<exists>d. unique_path ?db (net_Owner (db_nets ?db n)) d nl)))
        \<and> ((\<forall>ip\<in>set ?insts.
              \<forall>pr\<in>set (inst_PortRefs (db_insts ?db ip)).
                IsExternalTo (db_nets ?db (snd pr)) nl \<longrightarrow>
                (\<exists>d. unique_path ?db (net_Owner (db_nets ?db (snd pr))) d nl))
            \<longrightarrow> no_external (g_db (fst st')) nl)"
  proof (intro exI [of _ st'] conjI ballI impI)
    show "extnets_run fuel nl st = Some st'" by (rule run)
  next
    fix ip pr
    assume "ip \<in> set ?insts" "pr \<in> set (inst_PortRefs (db_insts ?db ip))"
      "distinct (map fst (inst_PortRefs (db_insts ?db ip)))
                  \<and> IsExternalTo (db_nets ?db (snd pr)) nl
                  \<and> NumOfRefs ?db (net_Owner (db_nets ?db (snd pr))) \<noteq> 1"
    note f = first [OF this]
    show "pr \<in> set (inst_PortRefs (db_insts ?db' ip))"
      by (rule f [THEN conjunct1])
    show "IsExternalTo (db_nets ?db' (snd pr)) nl"
      by (rule f [THEN conjunct2, THEN conjunct1])
    show "db_nets ?db' (snd pr) = db_nets ?db (snd pr)"
      by (rule f [THEN conjunct2, THEN conjunct2, THEN conjunct1])
    show "nl_Ports (db_netlists ?db' (net_Owner (db_nets ?db (snd pr))))
                      = nl_Ports (db_netlists ?db (net_Owner (db_nets ?db (snd pr))))"
      by (rule f [THEN conjunct2, THEN conjunct2, THEN conjunct2, THEN conjunct1])
    show "net_level_up (snd st') (snd pr) = None"
      by (rule f [THEN conjunct2, THEN conjunct2, THEN conjunct2, THEN conjunct2])
  next
    fix ip pr
    assume "ip \<in> set ?insts" "pr \<in> set (inst_PortRefs (db_insts ?db ip))"
    with present show "\<exists>n. (fst pr, n) \<in> set (inst_PortRefs (db_insts ?db' ip))"
      by blast
  next
    fix ip q
    assume "ip \<in> set ?insts" "q \<in> set (inst_PortRefs (db_insts ?db' ip))"
      "IsExternalTo (db_nets ?db' (snd q)) nl"
    with left show "\<exists>n. (fst q, n) \<in> set (inst_PortRefs (db_insts ?db ip))
                   \<and> IsExternalTo (db_nets ?db n) nl
                   \<and> \<not> (\<exists>d. unique_path ?db (net_Owner (db_nets ?db n)) d nl)"
      by blast
  next
    assume "\<forall>ip\<in>set ?insts.
              \<forall>pr\<in>set (inst_PortRefs (db_insts ?db ip)).
                IsExternalTo (db_nets ?db (snd pr)) nl \<longrightarrow>
                (\<exists>d. unique_path ?db (net_Owner (db_nets ?db (snd pr))) d nl)"
    then show "no_external ?db' nl" by (rule none)
  qed
qed

lemma ex_ext_inv: "extnets_inv ex_ext_state"
  by (simp add: extnets_inv_def ex_ext_wf) (simp add: ext_defs)

lemma ex_ext_levels: "hierarchy_levels (g_db (fst ex_ext_state)) ex_ext_level 3"
  by (simp add: hierarchy_levels_def ext_defs ex_ext_level_def NumOfRefs_def up_netlist_def)

lemmas ext_unique_defs = ex_ext_unique_def ex_ext_db_def mk_net_def mk_inst_def mk_netlist_def
  update_inst_def

lemma ex_ext_unique_inv: "extnets_inv ex_ext_unique"
  by (simp add: extnets_inv_def extnets_wf_def ex_ext_unique_def) (simp add: ext_unique_defs)

lemma ex_ext_unique_levels: "hierarchy_levels (g_db (fst ex_ext_unique)) ex_ext_level 3"
  by (simp add: hierarchy_levels_def ext_unique_defs ex_ext_level_def NumOfRefs_def up_netlist_def)

lemma ex_ext_unique_paths:
  "\<forall>ip\<in>set (nl_Instances (db_netlists (g_db (fst ex_ext_unique)) 0)).
     \<forall>pr\<in>set (inst_PortRefs (db_insts (g_db (fst ex_ext_unique)) ip)).
       IsExternalTo (db_nets (g_db (fst ex_ext_unique)) (snd pr)) 0 \<longrightarrow>
       (\<exists>d. unique_path (g_db (fst ex_ext_unique))
              (net_Owner (db_nets (g_db (fst ex_ext_unique)) (snd pr))) d 0)"
proof -
  have "unique_path (g_db (fst ex_ext_unique)) 2 2 0"
    by (simp add: ext_unique_defs numeral_2_eq_2 NumOfRefs_def up_netlist_def)
  then have "\<exists>d. unique_path (g_db (fst ex_ext_unique)) 2 d 0" ..
  then show ?thesis
    by (simp add: ext_unique_defs)
qed

theorem extnets_run_resolution_witness:
  "extnets_inv ex_ext_state
   \<and> hierarchy_levels (g_db (fst ex_ext_state)) ex_ext_level 3
   \<and> ex_ext_level 0 + 3 + 1 < (8::nat)
   \<and> 4 \<in> set (nl_Instances (db_netlists (g_db (fst ex_ext_state)) 0))
   \<and> inst_PortRefs (db_insts (g_db (fst ex_ext_state)) 4) = [(''a'', 0), (''b'', 1)]
   \<and> IsExternalTo (db_nets (g_db (fst ex_ext_state)) 1) 0
   \<and> NumOfRefs (g_db (fst ex_ext_state)) (net_Owner (db_nets (g_db (fst ex_ext_state)) 1)) = 2
   \<and> (\<exists>st'. extnets_run 8 0 ex_ext_state = Some st'
         \<and> (''b'', 1) \<in> set (inst_PortRefs (db_insts (g_db (fst st')) 4))
         \<and> IsExternalTo (db_nets (g_db (fst st')) 1) 0
         \<and> db_nets (g_db (fst st')) 1 = db_nets (g_db (fst ex_ext_state)) 1
         \<and> nl_Ports (db_netlists (g_db (fst st')) 3) = []
         \<and> net_level_up (snd st') 1 = None
         \<and> (\<exists>n. (''a'', n) \<in> set (inst_PortRefs (db_insts (g_db (fst st')) 4))))
   \<and> extnets_inv ex_ext_unique
   \<and> hierarchy_levels (g_db (fst ex_ext_unique)) ex_ext_level 3
   \<and> inst_PortRefs (db_insts (g_db (fst ex_ext_unique)) 4) = [(''a'', 0)]
   \<and> IsExternalTo (db_nets (g_db (fst ex_ext_unique)) 0) 0
   \<and> unique_path (g_db (fst ex_ext_unique))
        (net_Owner (db_nets (g_db (fst ex_ext_unique)) 0)) 2 0
   \<and> (\<exists>st'. extnets_run 8 0 ex_ext_unique = Some st' \<and> no_external (g_db (fst st')) 0)"
proof -
  have lv: "ex_ext_level 0 + 3 + 1 < (8::nat)"
    by (simp add: ex_ext_level_def)
  have facts: "4 \<in> set (nl_Instances (db_netlists (g_db (fst ex_ext_state)) 0))"
    "inst_PortRefs (db_insts (g_db (fst ex_ext_state)) 4) = [(''a'', 0), (''b'', 1)]"
    "IsExternalTo (db_nets (g_db (fst ex_ext_state)) 1) 0"
    "NumOfRefs (g_db (fst ex_ext_state)) (net_Owner (db_nets (g_db (fst ex_ext_state)) 1)) = 2"
    "net_Owner (db_nets (g_db (fst ex_ext_state)) 1) = 3"
    "nl_Ports (db_netlists (g_db (fst ex_ext_state)) 3) = []"
    by (simp_all add: ext_defs IsExternalTo_def NumOfRefs_def)
  have ufacts: "inst_PortRefs (db_insts (g_db (fst ex_ext_unique)) 4) = [(''a'', 0)]"
    "IsExternalTo (db_nets (g_db (fst ex_ext_unique)) 0) 0"
    "unique_path (g_db (fst ex_ext_unique))
        (net_Owner (db_nets (g_db (fst ex_ext_unique)) 0)) 2 0"
    by (simp_all add: ext_unique_defs IsExternalTo_def numeral_2_eq_2 NumOfRefs_def
        up_netlist_def)
  note mixed = extnets_run_resolution [where st=ex_ext_state and level=ex_ext_level
      and height=3 and nl=0 and fuel=8]
  note unique = extnets_run_resolution [where st=ex_ext_unique and level=ex_ext_level
      and height=3 and nl=0 and fuel=8]
  from mixed ex_ext_inv ex_ext_levels lv obtain st' where
    run: "extnets_run 8 0 ex_ext_state = Some st'"
    and refs: "\<forall>ip\<in>set (nl_Instances (db_netlists (g_db (fst ex_ext_state)) 0)).
             \<forall>pr\<in>set (inst_PortRefs (db_insts (g_db (fst ex_ext_state)) ip)).
               (distinct (map fst (inst_PortRefs (db_insts (g_db (fst ex_ext_state)) ip)))
                  \<and> IsExternalTo (db_nets (g_db (fst ex_ext_state)) (snd pr)) 0
                  \<and> NumOfRefs (g_db (fst ex_ext_state))
                       (net_Owner (db_nets (g_db (fst ex_ext_state)) (snd pr))) \<noteq> 1
                \<longrightarrow> pr \<in> set (inst_PortRefs (db_insts (g_db (fst st')) ip))
                  \<and> IsExternalTo (db_nets (g_db (fst st')) (snd pr)) 0
                  \<and> db_nets (g_db (fst st')) (snd pr) = db_nets (g_db (fst ex_ext_state)) (snd pr)
                  \<and> nl_Ports (db_netlists (g_db (fst st'))
                                (net_Owner (db_nets (g_db (fst ex_ext_state)) (snd pr))))
                      = nl_Ports (db_netlists (g_db (fst ex_ext_state))
                                    (net_Owner (db_nets (g_db (fst ex_ext_state)) (snd pr))))
                  \<and> net_level_up (snd st') (snd pr) = None)
               \<and> (\<exists>n. (fst pr, n) \<in> set (inst_PortRefs (db_insts (g_db (fst st')) ip)))"
    by blast
  from refs facts(1) have four:
    "\<forall>pr\<in>set [(''a'', 0::nat), (''b'', 1)].
               (distinct (map fst [(''a'', 0::nat), (''b'', 1)])
                  \<and> IsExternalTo (db_nets (g_db (fst ex_ext_state)) (snd pr)) 0
                  \<and> NumOfRefs (g_db (fst ex_ext_state))
                       (net_Owner (db_nets (g_db (fst ex_ext_state)) (snd pr))) \<noteq> 1
                \<longrightarrow> pr \<in> set (inst_PortRefs (db_insts (g_db (fst st')) 4))
                  \<and> IsExternalTo (db_nets (g_db (fst st')) (snd pr)) 0
                  \<and> db_nets (g_db (fst st')) (snd pr) = db_nets (g_db (fst ex_ext_state)) (snd pr)
                  \<and> nl_Ports (db_netlists (g_db (fst st'))
                                (net_Owner (db_nets (g_db (fst ex_ext_state)) (snd pr))))
                      = nl_Ports (db_netlists (g_db (fst ex_ext_state))
                                    (net_Owner (db_nets (g_db (fst ex_ext_state)) (snd pr))))
                  \<and> net_level_up (snd st') (snd pr) = None)
               \<and> (\<exists>n. (fst pr, n) \<in> set (inst_PortRefs (db_insts (g_db (fst st')) 4)))"
    unfolding facts(2) [symmetric] by (rule bspec)
  from four facts have m: "(''b'', 1) \<in> set (inst_PortRefs (db_insts (g_db (fst st')) 4))
         \<and> IsExternalTo (db_nets (g_db (fst st')) 1) 0
         \<and> db_nets (g_db (fst st')) 1 = db_nets (g_db (fst ex_ext_state)) 1
         \<and> nl_Ports (db_netlists (g_db (fst st')) 3) = []
         \<and> net_level_up (snd st') 1 = None
         \<and> (\<exists>n. (''a'', n) \<in> set (inst_PortRefs (db_insts (g_db (fst st')) 4)))"
    by simp
  from unique ex_ext_unique_inv ex_ext_unique_levels lv ex_ext_unique_paths
  obtain st'' where u: "extnets_run 8 0 ex_ext_unique = Some st''"
    "no_external (g_db (fst st'')) 0"
    by blast
  from ex_ext_inv ex_ext_levels lv facts(1-4) run m ex_ext_unique_inv ex_ext_unique_levels
    ufacts u
  show ?thesis
    by blast
qed

lemma ex_ext_run:
  "map_option (\<lambda>st. (inst_PortRefs (db_insts (g_db (fst st)) 4),
                       inst_PortRefs (db_insts (g_db (fst st)) 0),
                       inst_PortRefs (db_insts (g_db (fst st)) 1),
                       g_next_net (fst st), no_external (g_db (fst st)) 0))
     (extnets_run 8 0 ex_ext_state)
   = Some ([(''a'', 3), (''b'', 1)], [(''___extnets_1'', 3)], [(''___extnets_0'', 2)], 4, False)"
  by code_simp

lemma ex_ext_unique_run:
  "map_option (\<lambda>st. (inst_PortRefs (db_insts (g_db (fst st)) 4),
                       inst_PortRefs (db_insts (g_db (fst st)) 0),
                       inst_PortRefs (db_insts (g_db (fst st)) 1),
                       g_next_net (fst st), no_external (g_db (fst st)) 0))
     (extnets_run 8 0 ex_ext_unique)
   = Some ([(''a'', 3)], [(''___extnets_1'', 3)], [(''___extnets_0'', 2)], 4, True)"
  by code_simp

subsection \<open>Merging the past-value registers\<close>

lemma bind_err_Inr: "bind_err (Inr x) f = f x"
  by (simp add: bind_err_def)

lemma fold_err_append:
  "fold_err f (xs @ ys) s = bind_err (fold_err f xs s) (fold_err f ys)"
  by (induction xs arbitrary: s) (simp_all add: bind_err_def split: sum.splits)

lemma fold_err_cong_set:
  "(\<And>x s. x \<in> set xs \<Longrightarrow> f x s = g x s) \<Longrightarrow> s = s' \<Longrightarrow> fold_err f xs s = fold_err g xs s'"
  by (induction xs arbitrary: s s') (simp_all add: bind_err_def split: sum.splits)

lemma map_err_all:
  "(\<And>x. x \<in> set xs \<Longrightarrow> f x = Inr (g x)) \<Longrightarrow> map_err f xs = Inr (map g xs)"
  by (induction xs) (simp_all add: bind_err_def)

lemma filter_single:
  "distinct xs \<Longrightarrow> x \<in> set xs \<Longrightarrow> (\<And>y. y \<in> set xs \<Longrightarrow> P y \<longleftrightarrow> y = x) \<Longrightarrow> filter P xs = [x]"
proof (induction xs)
  case Nil
  then show ?case by simp
next
  case (Cons a xs)
  show ?case
  proof (cases "a = x")
    case True
    have "\<And>y. y \<in> set xs \<Longrightarrow> \<not> P y" using Cons.prems True by auto
    then have "filter P xs = []" by (simp add: filter_empty_conv)
    moreover have "P a" using Cons.prems True by simp
    ultimately show ?thesis using True by simp
  next
    case False
    then have "x \<in> set xs" using Cons.prems by simp
    moreover have "distinct xs" using Cons.prems by simp
    ultimately have "filter P xs = [x]" using Cons.IH Cons.prems by simp
    moreover have "\<not> P a" using Cons.prems False by simp
    ultimately show ?thesis by simp
  qed
qed

lemma dbits_db_filter:
  "map snd (filter (\<lambda>p. fst p = b) (zip (map f xs) xs)) = filter (\<lambda>c. f c = b) xs"
  by (induction xs) simp_all

lemma inj_state_code: "state_code x = state_code y \<Longrightarrow> x = y"
  by (cases x; cases y) simp_all

lemma inj_id_key: "id_key x = id_key y \<Longrightarrow> x = y"
  by (cases x; cases y) simp_all

lemma inj_sigbit_key: "inj sigbit_key"
proof (rule injI)
  fix x y
  assume "sigbit_key x = sigbit_key y"
  then show "x = y"
    by (cases x; cases y) (auto dest: inj_state_code inj_id_key)
qed

lemma sorted_key_unique:
  assumes "sorted (map f xs)" and "distinct xs" and "sorted (map f ys)" and "distinct ys"
    and "set xs = set ys" and "inj f"
  shows "xs = ys"
proof -
  have "inj_on f (set xs)" and "inj_on f (set ys)"
    using \<open>inj f\<close> by (auto intro: inj_on_subset)
  then have "distinct (map f xs)" and "distinct (map f ys)"
    using assms by (simp_all add: distinct_map)
  moreover have "set (map f xs) = set (map f ys)" using assms by simp
  ultimately have "map f xs = map f ys"
    using assms by (intro sorted_distinct_set_unique)
  then show ?thesis using \<open>inj f\<close> by (simp add: inj_map_eq_map)
qed

lemma sorted_run_keys: "sorted (map sigbit_key (map (SigWire w) [k..<k + n]))"
proof -
  have "sorted_wrt (\<lambda>x y. sigbit_key (SigWire w x) \<le> sigbit_key (SigWire w y)) [k..<k + n]"
    by (rule sorted_wrt_mono_rel[where P = "(<)"]) (simp_all add: less_eq_prod_def)
  then show ?thesis by (simp add: sorted_map o_def sorted_wrt_map)
qed

lemma sort_and_unify_run:
  assumes "distinct bits" and "set bits = SigWire w ` {k..<k + n}"
  shows "sort_and_unify bits = map (SigWire w) [k..<k + n]"
proof -
  let ?L = "sort_key sigbit_key bits"
  have "distinct ?L" using assms by simp
  then have "remdups_adj ?L = ?L" by (rule remdups_adj_distinct)
  moreover have "?L = map (SigWire w) [k..<k + n]"
  proof (rule sorted_key_unique[where f = sigbit_key])
    show "sorted (map sigbit_key ?L)" by (rule sorted_sort_key)
    show "distinct ?L" by fact
    show "sorted (map sigbit_key (map (SigWire w) [k..<k + n]))" by (rule sorted_run_keys)
    show "distinct (map (SigWire w) [k..<k + n])" by (simp add: distinct_map inj_on_def)
    show "set ?L = set (map (SigWire w) [k..<k + n])" using assms by simp
    show "inj sigbit_key" by (rule inj_sigbit_key)
  qed
  ultimately show ?thesis by (simp add: sort_and_unify_def)
qed

lemma chunks_run:
  "chunks (map (SigWire w) [k..<k + Suc n]) = [map (SigWire w) [k..<k + Suc n]]"
proof (induction n arbitrary: k)
  case 0
  show ?case by simp
next
  case (Suc n)
  have split: "[k..<k + Suc (Suc n)] = k # [Suc k..<Suc k + Suc n]"
    by (simp add: upt_conv_Cons)
  have tail: "[Suc k..<Suc k + Suc n] = Suc k # [Suc (Suc k)..<Suc k + Suc n]"
    by (simp add: upt_conv_Cons)
  have IH: "chunks (map (SigWire w) [Suc k..<Suc k + Suc n]) = [map (SigWire w) [Suc k..<Suc k + Suc n]]"
    by (rule Suc.IH)
  show ?case
    unfolding split using IH unfolding tail by simp
qed


lemma replace_ffs_fold:
  assumes outs: "\<And>i. i < length ffs \<Longrightarrow> getPort (ffs ! i) (pub ''Q'') = Inr [q i]"
    and names: "distinct (map cell_name ffs)"
    and inm: "set ffs \<subseteq> set (mod_cells (ms_module st))"
    and j: "j \<le> length ffs"
  shows "\<exists>sm. fold_err (\<lambda>i. replace_ff (nq i) (ffs ! i)) [0..<j] st =
           Inr \<lparr>ms_module = (ms_module st)
                   \<lparr>mod_cells := filter (\<lambda>c. cell_name c \<notin> set (map cell_name (take j ffs)))
                                   (mod_cells (ms_module st)),
                    mod_conns := mod_conns (ms_module st) @ map (\<lambda>i. ([q i], [nq i])) [0..<j]\<rparr>,
                 ms_candidates = filter (\<lambda>c. c \<notin> set (take j ffs)) (ms_candidates st),
                 ms_sigmap = sm,
                 ms_keep_running = (0 < j \<or> ms_keep_running st)\<rparr>"
  using j
proof (induction j)
  case 0
  show ?case by (rule exI[of _ "ms_sigmap st"]) simp
next
  case (Suc j)
  then have jlt: "j < length ffs" by simp
  from Suc obtain sm where IH:
    "fold_err (\<lambda>i. replace_ff (nq i) (ffs ! i)) [0..<j] st =
       Inr \<lparr>ms_module = (ms_module st)
               \<lparr>mod_cells := filter (\<lambda>c. cell_name c \<notin> set (map cell_name (take j ffs)))
                               (mod_cells (ms_module st)),
                mod_conns := mod_conns (ms_module st) @ map (\<lambda>i. ([q i], [nq i])) [0..<j]\<rparr>,
             ms_candidates = filter (\<lambda>c. c \<notin> set (take j ffs)) (ms_candidates st),
             ms_sigmap = sm,
             ms_keep_running = (0 < j \<or> ms_keep_running st)\<rparr>"
    by auto
  have there: "ffs ! j \<in> set (mod_cells (ms_module st))"
    using inm jlt by auto
  have new: "cell_name (ffs ! j) \<notin> set (map cell_name (take j ffs))"
  proof
    assume "cell_name (ffs ! j) \<in> set (map cell_name (take j ffs))"
    then obtain i where i: "i < j" and eq: "map cell_name ffs ! i = map cell_name ffs ! j"
      using jlt by (auto simp add: in_set_conv_nth)
    then show False
      using names jlt by (simp add: distinct_conv_nth del: nth_map)
  qed
  have present: "cell_name (ffs ! j) \<in> cell_name ` {c \<in> set (mod_cells (ms_module st)).
                    cell_name c \<notin> set (map cell_name (take j ffs))}"
    using there new by blast
  have tk: "take (Suc j) ffs = take j ffs @ [ffs ! j]"
    using jlt by (simp add: take_Suc_conv_app_nth)
  have cells: "filter (\<lambda>x. cell_name x \<notin> cell_name ` set (take j ffs)
                            \<and> cell_name x \<noteq> cell_name (ffs ! j)) cs
               = filter (\<lambda>c. cell_name c \<notin> cell_name ` set (take (Suc j) ffs)) cs" for cs
    unfolding tk by (induction cs) auto
  have cands: "removeAll (ffs ! j) (filter (\<lambda>c. c \<notin> set (take j ffs)) cs)
               = filter (\<lambda>c. c \<notin> set (take (Suc j) ffs)) cs" for cs
    unfolding tk by (induction cs) auto
  have "fold_err (\<lambda>i. replace_ff (nq i) (ffs ! i)) [0..<Suc j] st =
          bind_err (fold_err (\<lambda>i. replace_ff (nq i) (ffs ! i)) [0..<j] st)
            (replace_ff (nq j) (ffs ! j))"
    by (simp add: fold_err_append bind_err_def split: sum.splits)
  also have "\<dots> = Inr \<lparr>ms_module = (ms_module st)
               \<lparr>mod_cells := filter (\<lambda>c. cell_name c \<notin> set (map cell_name (take (Suc j) ffs)))
                               (mod_cells (ms_module st)),
                mod_conns := mod_conns (ms_module st) @ map (\<lambda>i. ([q i], [nq i])) [0..<Suc j]\<rparr>,
             ms_candidates = filter (\<lambda>c. c \<notin> set (take (Suc j) ffs)) (ms_candidates st),
             ms_sigmap = sigmap_add sm (q j) (nq j),
             ms_keep_running = True\<rparr>"
    unfolding IH
    using present
    by (simp add: replace_ff_def bind_err_def outs[OF jlt] as_bit_def module_remove_def
        module_connect_def cells cands)
  finally show ?case by auto
qed


lemma fold_err_single: "bind_err r (fold_err f []) = r"
  by (simp add: bind_err_def split: sum.splits)

lemma fresh_names_new:
  assumes "fresh_names m" and "set ffs \<subseteq> set (mod_cells m)"
  shows "AutoId (mod_autoidx m + d) \<notin> cell_name ` set ffs"
proof
  assume "AutoId (mod_autoidx m + d) \<in> cell_name ` set ffs"
  then obtain c where "c \<in> set (mod_cells m)" and "cell_name c = AutoId (mod_autoidx m + d)"
    using assms(2) by auto
  then show False
    using assms(1) by (auto simp add: fresh_names_def list_all_iff)
qed

lemma process_chunk_wire:
  assumes "hd sig_d = SigWire w k" and "2 \<le> length sig_d"
  shows "process_chunk clock pol db sig_d st =
           fold_err (\<lambda>i. fold_err
                            (replace_ff (map (SigWire (AutoId (mod_autoidx (ms_module st))))
                                           [0..<length sig_d] ! i))
                            (db (sig_d ! i)))
             [0..<length sig_d]
             (st\<lparr>ms_module := (ms_module st)
                   \<lparr>mod_wires := mod_wires (ms_module st) @
                      [\<lparr>wire_name = AutoId (mod_autoidx (ms_module st)),
                        wire_width = length sig_d, wire_attributes = []\<rparr>],
                    mod_cells := mod_cells (ms_module st) @
                      [\<lparr>cell_name = AutoId (mod_autoidx (ms_module st) + 1), cell_type = ''$dff'',
                        cell_parameters = [(pub ''CLK_POLARITY'', Const_bool pol),
                                           (pub ''WIDTH'', Const_int (int (length sig_d)))],
                        cell_ports = [(pub ''CLK'', [clock]), (pub ''D'', sig_d),
                                      (pub ''Q'', map (SigWire (AutoId (mod_autoidx (ms_module st))))
                                                    [0..<length sig_d])]\<rparr>],
                    mod_autoidx := mod_autoidx (ms_module st) + 2\<rparr>\<rparr>)"
proof (cases sig_d)
  case Nil
  then show ?thesis using assms by simp
next
  case (Cons b rest)
  then show ?thesis
    using assms
    apply (cases rest)
     apply (simp_all add: process_chunk_def NEW_ID_def addWire_def addDff_def addCell_def
          SigSpec_of_wire_def Let_def del: upt_Suc)
    apply (rule fold_err_cong_set)
     apply simp_all
    done
qed

lemma first_iteration:
  assumes n: "2 \<le> length ffs"
    and regs: "\<And>i. i < length ffs \<Longrightarrow> past_ff clock pol (SigWire w (k + i)) (q i) (ffs ! i)"
    and pool: "set pool = set ffs" "distinct pool"
    and inm: "set ffs \<subseteq> set (mod_cells m)"
    and names: "distinct (map cell_name ffs)"
    and fresh: "fresh_names m"
  shows "\<exists>sm. merge_iteration clock pol
                \<lparr>ms_module = m, ms_candidates = pool, ms_sigmap = (\<lambda>b. b), ms_keep_running = True\<rparr>
             = Inr \<lparr>ms_module = merged_module m ffs clock pol w k q, ms_candidates = [],
                    ms_sigmap = sm, ms_keep_running = True\<rparr>"
proof -
  let ?n = "length ffs"
  let ?a = "mod_autoidx m"
  let ?sig_d = "map (SigWire w) [k..<k + ?n]"
  let ?sig_q = "map (SigWire (AutoId ?a)) [0..<?n]"
  let ?new_ff = "\<lparr>cell_name = AutoId (?a + 1), cell_type = ''$dff'',
                   cell_parameters = [(pub ''CLK_POLARITY'', Const_bool pol),
                                      (pub ''WIDTH'', Const_int (int ?n))],
                   cell_ports = [(pub ''CLK'', [clock]), (pub ''D'', ?sig_d), (pub ''Q'', ?sig_q)]\<rparr>"
  let ?m4 = "m\<lparr>mod_wires := mod_wires m @
                  [\<lparr>wire_name = AutoId ?a, wire_width = ?n, wire_attributes = []\<rparr>],
                mod_cells := mod_cells m @ [?new_ff],
                mod_autoidx := ?a + 2\<rparr>"
  let ?st = "\<lparr>ms_module = ?m4, ms_candidates = pool, ms_sigmap = (\<lambda>b. b),
              ms_keep_running = False\<rparr>"
  define dof where "dof c = (case getPort c (pub ''D'') of Inr s \<Rightarrow> hd s | Inl _ \<Rightarrow> SigConst Sx)"
    for c
  have dof: "dof (ffs ! i) = SigWire w (k + i)" if "i < ?n" for i
    using regs[OF that] by (simp add: dof_def past_ff_def)
  have outs: "getPort (ffs ! i) (pub ''Q'') = Inr [q i]" if "i < ?n" for i
    using regs[OF that] by (simp add: past_ff_def)
  have D: "getPort c (pub ''D'') = Inr [dof c]" if "c \<in> set ffs" for c
  proof -
    from that obtain i where "i < ?n" and "c = ffs ! i" by (auto simp add: in_set_conv_nth)
    then show ?thesis using regs[of i] dof[of i] by (simp add: past_ff_def)
  qed
  have dbits: "map_err (\<lambda>c. bind_err (getPort c (pub ''D'')) as_bit) pool = Inr (map dof pool)"
    by (rule map_err_all) (simp add: D pool bind_err_def as_bit_def)
  have inj: "inj_on dof (set ffs)"
  proof (rule inj_onI)
    fix x y
    assume "x \<in> set ffs" and "y \<in> set ffs" and eq: "dof x = dof y"
    then obtain i j where "i < ?n" "x = ffs ! i" "j < ?n" "y = ffs ! j"
      by (auto simp add: in_set_conv_nth)
    then show "x = y" using eq dof[of i] dof[of j] by simp
  qed
  have set_bits: "set (map dof pool) = SigWire w ` {k..<k + ?n}"
  proof (intro equalityI subsetI)
    fix b
    assume "b \<in> set (map dof pool)"
    then obtain c where "c \<in> set ffs" and "b = dof c" using pool by auto
    then obtain i where "i < ?n" and "b = dof (ffs ! i)" by (auto simp add: in_set_conv_nth)
    then have "b = SigWire w (k + i)" and "k + i \<in> {k..<k + ?n}" by (simp_all add: dof)
    then show "b \<in> SigWire w ` {k..<k + ?n}" by blast
  next
    fix b
    assume "b \<in> SigWire w ` {k..<k + ?n}"
    then obtain j where j: "k \<le> j" "j < k + ?n" and b: "b = SigWire w j" by auto
    then have "j - k < ?n" and "k + (j - k) = j" by simp_all
    then have "b = dof (ffs ! (j - k))" and "ffs ! (j - k) \<in> set ffs" using b by (simp_all add: dof)
    then show "b \<in> set (map dof pool)" using pool by simp
  qed
  have dist_bits: "distinct (map dof pool)"
    using pool inj by (simp add: distinct_map)
  have unified: "sort_and_unify (map dof pool) = ?sig_d"
    by (rule sort_and_unify_run[OF dist_bits set_bits])
  obtain n' where n': "?n = Suc (Suc n')"
    using n by (metis Suc_le_D numeral_2_eq_2 Suc_le_mono)
  have ch: "chunks ?sig_d = [?sig_d]"
    using chunks_run[of w k "Suc n'"] by (simp only: n')
  have db: "map snd (filter (\<lambda>p. fst p = SigWire w (k + i)) (zip (map dof pool) pool)) = [ffs ! i]"
    if "i < ?n" for i
    unfolding dbits_db_filter
  proof (rule filter_single)
    show "distinct pool" by fact
    show "ffs ! i \<in> set pool" using that pool by simp
    fix y
    assume "y \<in> set pool"
    then have "y \<in> set ffs" using pool by simp
    moreover have "ffs ! i \<in> set ffs" using that by simp
    ultimately have "dof y = dof (ffs ! i) \<longleftrightarrow> y = ffs ! i"
      using inj by (simp add: inj_on_eq_iff)
    then show "(dof y = SigWire w (k + i)) = (y = ffs ! i)"
      by (simp add: dof[OF that])
  qed
  have "k < k + ?n" using n by (cases ffs) simp_all
  then have "[k..<k + ?n] = k # [Suc k..<k + ?n]"
    by (rule upt_conv_Cons)
  then have hd_d: "hd ?sig_d = SigWire w k" by simp
  have len_d: "2 \<le> length ?sig_d" and len_eq: "length ?sig_d = ?n"
    using n by simp_all
  have chunk: "process_chunk clock pol
                 (\<lambda>b. map snd (filter (\<lambda>p. fst p = b) (zip (map dof pool) pool))) ?sig_d
                 \<lparr>ms_module = m, ms_candidates = pool, ms_sigmap = (\<lambda>b. b), ms_keep_running = False\<rparr>
               = fold_err (\<lambda>i. replace_ff (SigWire (AutoId ?a) i) (ffs ! i)) [0..<?n] ?st"
    unfolding process_chunk_wire[OF hd_d len_d] len_eq
    by (rule fold_err_cong_set) (simp_all add: db fold_err_single)
  have inm4: "set ffs \<subseteq> set (mod_cells (ms_module ?st))"
    using inm by auto
  from replace_ffs_fold[where ffs = ffs and q = q and st = ?st and j = ?n
        and nq = "\<lambda>i. SigWire (AutoId ?a) i", OF outs names inm4]
  obtain sm where folded:
    "fold_err (\<lambda>i. replace_ff (SigWire (AutoId ?a) i) (ffs ! i)) [0..<?n] ?st =
       Inr \<lparr>ms_module = (ms_module ?st)
               \<lparr>mod_cells := filter (\<lambda>c. cell_name c \<notin> set (map cell_name (take ?n ffs)))
                               (mod_cells (ms_module ?st)),
                mod_conns := mod_conns (ms_module ?st)
                               @ map (\<lambda>i. ([q i], [SigWire (AutoId ?a) i])) [0..<?n]\<rparr>,
             ms_candidates = filter (\<lambda>c. c \<notin> set (take ?n ffs)) (ms_candidates ?st),
             ms_sigmap = sm,
             ms_keep_running = (0 < ?n \<or> ms_keep_running ?st)\<rparr>"
    by auto
  have nonempty: "ffs \<noteq> []" using n by (cases ffs) simp_all
  have left: "filter (\<lambda>c. c \<notin> set ffs) pool = []"
    using pool by (simp add: filter_empty_conv)
  have newname: "AutoId (Suc ?a) \<notin> cell_name ` set ffs"
    using fresh_names_new[OF fresh inm, of 1] by simp
  have "merge_iteration clock pol
          \<lparr>ms_module = m, ms_candidates = pool, ms_sigmap = (\<lambda>b. b), ms_keep_running = True\<rparr>
        = fold_err (\<lambda>i. replace_ff (SigWire (AutoId ?a) i) (ffs ! i)) [0..<?n] ?st"
    by (simp add: merge_iteration_def dbits bind_err_Inr unified ch chunk fold_err_single
        del: upt_Suc)
  also have "\<dots> = Inr \<lparr>ms_module = merged_module m ffs clock pol w k q, ms_candidates = [],
                        ms_sigmap = sm, ms_keep_running = True\<rparr>"
    unfolding folded using nonempty newname
    by (simp add: merged_module_def left)
  finally show ?thesis by blast
qed


lemma empty_iteration:
  "merge_iteration clock pol
     \<lparr>ms_module = m, ms_candidates = [], ms_sigmap = sm, ms_keep_running = r\<rparr>
   = Inr \<lparr>ms_module = m, ms_candidates = [], ms_sigmap = sm, ms_keep_running = False\<rparr>"
  by (simp add: merge_iteration_def bind_err_def sort_and_unify_def)

lemma merge_past_ffs_clock_run:
  assumes n: "2 \<le> length ffs"
    and regs: "\<And>i. i < length ffs \<Longrightarrow> past_ff clock pol (SigWire w (k + i)) (q i) (ffs ! i)"
    and pool: "set pool = set ffs" "distinct pool"
    and inm: "set ffs \<subseteq> set (mod_cells m)"
    and names: "distinct (map cell_name ffs)"
    and fresh: "fresh_names m"
  shows "merge_past_ffs_clock (Suc (Suc (Suc fuel))) m pool clock pol
         = Some (Inr (merged_module m ffs clock pol w k q, []))"
proof -
  from first_iteration[OF n regs pool inm names fresh]
  obtain sm where
    "merge_iteration clock pol
       \<lparr>ms_module = m, ms_candidates = pool, ms_sigmap = (\<lambda>b. b), ms_keep_running = True\<rparr>
     = Inr \<lparr>ms_module = merged_module m ffs clock pol w k q, ms_candidates = [],
            ms_sigmap = sm, ms_keep_running = True\<rparr>"
    by blast
  then show ?thesis
    by (simp add: merge_past_ffs_clock_def empty_iteration)
qed

lemma remdups_same: "xs \<noteq> [] \<Longrightarrow> remdups (map (\<lambda>_. key) xs) = [key]"
proof (induction xs)
  case Nil
  then show ?case by simp
next
  case (Cons a xs)
  show ?case
  proof (cases xs)
    case Nil
    then show ?thesis by simp
  next
    case (Cons b ys)
    then have "key \<in> set (map (\<lambda>_. key) xs)" by simp
    then show ?thesis using Cons.IH Cons by simp
  qed
qed

lemma filter_same: "filter (\<lambda>p. fst p = key) (zip (map (\<lambda>_. key) xs) xs) = zip (map (\<lambda>_. key) xs) xs"
  by (induction xs) simp_all

lemma merge_past_ffs_one_group:
  assumes "\<And>c. c \<in> set pool \<Longrightarrow> ff_clock_key c = Inr (clock, pol)"
    and "pool \<noteq> []"
    and "merge_past_ffs_clock fuel m pool clock pol = Some (Inr (m', left))"
  shows "merge_past_ffs fuel m pool = Some (Inr m')"
proof -
  have "map_err ff_clock_key pool = Inr (map (\<lambda>_. (clock, pol)) pool)"
    by (rule map_err_all) (rule assms(1))
  then show ?thesis
    using assms(2,3) by (simp add: merge_past_ffs_def remdups_same filter_same)
qed

lemma bind_err_InrD: "bind_err r f = Inr y \<Longrightarrow> \<exists>x. r = Inr x \<and> f x = Inr y"
  by (cases r) (simp_all add: bind_err_def)

lemma chunks_nonempty: "L \<noteq> [] \<Longrightarrow> chunks L \<noteq> []"
  by (induction L rule: chunks.induct) (auto split: list.splits)

lemma chunks_hd: "L \<noteq> [] \<Longrightarrow> hd (hd (chunks L)) = hd L"
  by (induction L rule: chunks.induct) (auto split: list.splits)

lemma chunks_parts:
  "c \<in> set (chunks L) \<Longrightarrow> c \<noteq> [] \<and> set c \<subseteq> set L \<and> successively extends_chunk c"
proof (induction L arbitrary: c rule: chunks.induct)
  case 1
  then show ?case by simp
next
  case (2 b)
  then show ?case by simp
next
  case (3 b b' bs)
  obtain c0 cs0 where ch: "chunks (b' # bs) = c0 # cs0"
    using chunks_nonempty[of "b' # bs"] by (cases "chunks (b' # bs)") simp_all
  have hd0: "hd c0 = b'" using chunks_hd[of "b' # bs"] ch by simp
  have c0: "c0 \<noteq> [] \<and> set c0 \<subseteq> set (b' # bs) \<and> successively extends_chunk c0"
    using ch 3 by (cases "extends_chunk b b'") auto
  show ?case
  proof (cases "extends_chunk b b'")
    case True
    then have "c = b # c0 \<or> c \<in> set cs0" using 3(3) ch by simp
    then show ?thesis
    proof
      assume "c = b # c0"
      then show ?thesis using c0 True hd0 by (auto simp add: successively_Cons)
    next
      assume "c \<in> set cs0"
      then have "c \<in> set (chunks (b' # bs))" using ch by simp
      then show ?thesis using 3(1)[OF True] by auto
    qed
  next
    case False
    then have "c = [b] \<or> c \<in> set (chunks (b' # bs))" using 3(3) by simp
    then show ?thesis using 3(2)[OF False] by auto
  qed
qed

lemma mergeable_neighbours:
  assumes "mergeable c" and "successively extends_chunk c"
  shows "\<exists>w i. SigWire w i \<in> set c \<and> SigWire w (Suc i) \<in> set c"
proof -
  from assms(1) obtain a b rest where c: "c = a # b # rest" and "\<not> is_const_bit a"
    by (cases c; cases "tl c") (auto simp add: mergeable_def)
  then have "extends_chunk a b" using assms(2) by simp
  then show ?thesis using c \<open>\<not> is_const_bit a\<close>
    by (cases a; cases b) auto
qed

lemma no_neighbours_chunks:
  assumes "no_neighbours (set L)" and "c \<in> set (chunks L)"
  shows "\<not> mergeable c"
proof
  assume "mergeable c"
  moreover have "successively extends_chunk c" and sub: "set c \<subseteq> set L"
    using chunks_parts[OF assms(2)] by simp_all
  ultimately obtain w i where "SigWire w i \<in> set c" and "SigWire w (Suc i) \<in> set c"
    using mergeable_neighbours by blast
  then have "SigWire w i \<in> set L" and "SigWire w (Suc i) \<in> set L" using sub by auto
  then show False using assms(1) by (auto simp add: no_neighbours_def)
qed

lemma process_chunk_skip: "\<not> mergeable c \<Longrightarrow> process_chunk clock pol db c st = Inr st"
  by (cases c) (auto simp add: process_chunk_def mergeable_def)

lemma fold_chunks_skip:
  "(\<And>c. c \<in> set cs \<Longrightarrow> \<not> mergeable c) \<Longrightarrow> fold_err (process_chunk clock pol db) cs st = Inr st"
  by (induction cs) (simp_all add: process_chunk_skip bind_err_def)

lemma set_sort_and_unify: "set (sort_and_unify bits) = set bits"
  by (simp add: sort_and_unify_def)

lemma quiet_iteration:
  assumes "\<And>c. c \<in> set cands \<Longrightarrow> getPort c (pub ''D'') = Inr [ff_d c]"
    and "no_neighbours (ff_d ` set cands)"
  shows "merge_iteration clock pol
           \<lparr>ms_module = m, ms_candidates = cands, ms_sigmap = (\<lambda>b. b), ms_keep_running = r\<rparr>
         = Inr \<lparr>ms_module = m, ms_candidates = cands, ms_sigmap = (\<lambda>b. b), ms_keep_running = False\<rparr>"
proof -
  have dbits: "map_err (\<lambda>c. bind_err (getPort c (pub ''D'')) as_bit) cands = Inr (map ff_d cands)"
    by (rule map_err_all) (simp add: assms(1) bind_err_def as_bit_def)
  have "no_neighbours (set (sort_and_unify (map ff_d cands)))"
    using assms(2) by (simp add: set_sort_and_unify)
  then have "\<And>c. c \<in> set (chunks (sort_and_unify (map ff_d cands))) \<Longrightarrow> \<not> mergeable c"
    by (rule no_neighbours_chunks)
  then show ?thesis
    by (simp add: merge_iteration_def dbits bind_err_Inr fold_chunks_skip)
qed


lemma replace_ff_candidates:
  "replace_ff nq c st = Inr st' \<Longrightarrow> ms_candidates st' = removeAll c (ms_candidates st)"
  by (auto simp add: replace_ff_def dest!: bind_err_InrD)

lemma fold_replace_candidates:
  "fold_err (replace_ff nq) cs st = Inr st' \<Longrightarrow>
   ms_candidates st' = filter (\<lambda>x. x \<notin> set cs) (ms_candidates st)"
proof (induction cs arbitrary: st)
  case Nil
  then show ?case by simp
next
  case (Cons c cs)
  from Cons.prems obtain st1 where a: "replace_ff nq c st = Inr st1"
    and b: "fold_err (replace_ff nq) cs st1 = Inr st'"
    by (auto dest!: bind_err_InrD)
  have "ms_candidates st' = filter (\<lambda>x. x \<notin> set cs) (removeAll c (ms_candidates st))"
    using Cons.IH[OF b] replace_ff_candidates[OF a] by simp
  also have "\<dots> = filter (\<lambda>x. x \<notin> set (c # cs)) (ms_candidates st)"
    by (simp add: removeAll_filter_not_eq) (rule filter_cong, auto)
  finally show ?case .
qed

lemma fold_chunk_candidates:
  "fold_err (\<lambda>i. fold_err (replace_ff (nq i)) (db (c ! i))) [0..<n] st = Inr st' \<Longrightarrow>
   ms_candidates st' = filter (\<lambda>x. \<forall>i<n. x \<notin> set (db (c ! i))) (ms_candidates st)"
proof (induction n arbitrary: st')
  case 0
  then show ?case by simp
next
  case (Suc n)
  from Suc.prems obtain st1 where
    a: "fold_err (\<lambda>i. fold_err (replace_ff (nq i)) (db (c ! i))) [0..<n] st = Inr st1"
    and b: "fold_err (replace_ff (nq n)) (db (c ! n)) st1 = Inr st'"
    by (auto simp add: fold_err_append fold_err_single dest!: bind_err_InrD)
  have "ms_candidates st' = filter (\<lambda>x. x \<notin> set (db (c ! n)))
          (filter (\<lambda>x. \<forall>i<n. x \<notin> set (db (c ! i))) (ms_candidates st))"
    using fold_replace_candidates[OF b] Suc.IH[OF a] by simp
  also have "\<dots> = filter (\<lambda>x. \<forall>i<Suc n. x \<notin> set (db (c ! i))) (ms_candidates st)"
    by (auto simp add: less_Suc_eq intro: filter_cong)
  finally show ?case .
qed

lemma process_chunk_candidates:
  assumes "process_chunk clock pol db c st = Inr st'"
  shows "ms_candidates st' =
           filter (\<lambda>x. mergeable c \<longrightarrow> (\<forall>b\<in>set c. x \<notin> set (db b))) (ms_candidates st)"
proof (cases "mergeable c")
  case False
  then show ?thesis using assms by (simp add: process_chunk_skip)
next
  case True
  then obtain w k where "hd c = SigWire w k" and "2 \<le> length c"
    by (cases c; cases "hd c"; cases "tl c") (auto simp add: mergeable_def)
  then have "ms_candidates st' = filter (\<lambda>x. \<forall>i<length c. x \<notin> set (db (c ! i))) (ms_candidates st)"
    using assms fold_chunk_candidates
    by (simp add: process_chunk_wire del: upt_Suc) fastforce
  also have "\<dots> = filter (\<lambda>x. \<forall>b\<in>set c. x \<notin> set (db b)) (ms_candidates st)"
  proof (rule filter_cong)
    fix x
    show "(\<forall>i<length c. x \<notin> set (db (c ! i))) = (\<forall>b\<in>set c. x \<notin> set (db b))"
      by (metis in_set_conv_nth)
  qed simp
  finally show ?thesis using True by simp
qed

lemma fold_chunks_candidates:
  "fold_err (process_chunk clock pol db) cs st = Inr st' \<Longrightarrow>
   ms_candidates st' =
     filter (\<lambda>x. \<forall>c\<in>set cs. mergeable c \<longrightarrow> (\<forall>b\<in>set c. x \<notin> set (db b))) (ms_candidates st)"
proof (induction cs arbitrary: st)
  case Nil
  then show ?case by simp
next
  case (Cons c cs)
  from Cons.prems obtain st1 where a: "process_chunk clock pol db c st = Inr st1"
    and b: "fold_err (process_chunk clock pol db) cs st1 = Inr st'"
    by (auto dest!: bind_err_InrD)
  show ?case
    unfolding Cons.IH[OF b] process_chunk_candidates[OF a]
    by (auto intro: filter_cong)
qed


lemma sorted_remdups_adj_distinct: "sorted xs \<Longrightarrow> distinct (remdups_adj xs)"
  by (induction xs rule: remdups_adj.induct) (auto split: if_splits)

lemma sort_and_unify_keys:
  "map sigbit_key (sort_and_unify bits) = remdups_adj (map sigbit_key (sort_key sigbit_key bits))"
  by (simp add: sort_and_unify_def remdups_adj_map_injective[OF inj_sigbit_key])

lemma sort_and_unify_sorted: "sorted (map sigbit_key (sort_and_unify bits))"
  unfolding sort_and_unify_keys by (rule sorted_remdups_adj) (rule sorted_sort_key)

lemma sort_and_unify_distinct: "distinct (sort_and_unify bits)"
proof -
  have "distinct (map sigbit_key (sort_and_unify bits))"
    unfolding sort_and_unify_keys by (rule sorted_remdups_adj_distinct) (rule sorted_sort_key)
  then show ?thesis by (simp add: distinct_map)
qed

lemma key_between:
  fixes x y :: "'a::linorder"
  assumes "(1::nat, x, i::nat) < (p, y, j)" and "(p, y, j) \<le> (1, x, Suc i)"
  shows "p = 1 \<and> y = x \<and> j = Suc i"
  using assms by (auto simp add: less_prod_def less_eq_prod_def)

lemma sigbit_key_between:
  assumes "sigbit_key (SigWire w i) < sigbit_key z"
    and "sigbit_key z \<le> sigbit_key (SigWire w (Suc i))"
  shows "z = SigWire w (Suc i)"
proof (cases z)
  case (SigConst s)
  then show ?thesis using assms(1) by (simp add: less_prod_def)
next
  case (SigWire w' j)
  then have "(1::nat, id_key w, i) < (1, id_key w', j)"
    and "(1::nat, id_key w', j) \<le> (1, id_key w, Suc i)"
    using assms by simp_all
  then have "id_key w' = id_key w \<and> j = Suc i"
    using key_between by blast
  then show ?thesis using SigWire by (auto dest: inj_id_key)
qed

lemma neighbours_adjacent:
  assumes srt: "sorted (map sigbit_key L)" and dist: "distinct L"
    and a: "SigWire w i \<in> set L" and b: "SigWire w (Suc i) \<in> set L"
  shows "\<exists>xs ys. L = xs @ SigWire w i # SigWire w (Suc i) # ys"
proof -
  let ?a = "SigWire w i" and ?b = "SigWire w (Suc i)"
  have lt: "sigbit_key ?a < sigbit_key ?b" by (simp add: less_prod_def)
  from a obtain xs zs where L: "L = xs @ ?a # zs" by (auto dest: split_list)
  have before: "\<And>x. x \<in> set xs \<Longrightarrow> sigbit_key x \<le> sigbit_key ?a"
    and after: "\<And>z. z \<in> set zs \<Longrightarrow> sigbit_key ?a \<le> sigbit_key z"
    and srt_zs: "sorted (map sigbit_key zs)"
    using srt unfolding L by (auto simp add: sorted_append)
  have "?b \<notin> set xs"
  proof
    assume "?b \<in> set xs"
    then have "sigbit_key ?b \<le> sigbit_key ?a" by (rule before)
    then show False using lt by simp
  qed
  then have "?b \<in> set zs" using b unfolding L by auto
  then obtain z zs' where zs: "zs = z # zs'" by (cases zs) auto
  have "z \<noteq> ?a" using dist unfolding L zs by auto
  then have "sigbit_key z \<noteq> sigbit_key ?a"
    using inj_sigbit_key by (simp only: inj_eq) simp
  moreover have "sigbit_key ?a \<le> sigbit_key z" using after zs by simp
  ultimately have lo: "sigbit_key ?a < sigbit_key z" by simp
  have hi: "sigbit_key z \<le> sigbit_key ?b"
    using \<open>?b \<in> set zs\<close> srt_zs unfolding zs by auto
  have "z = ?b" using lo hi by (rule sigbit_key_between)
  then show ?thesis using L zs by blast
qed

lemma extends_chunk_wire: "extends_chunk x y \<Longrightarrow> \<not> is_const_bit y \<Longrightarrow> \<not> is_const_bit x"
  by (cases x; cases y) simp_all

lemma chunk_of_neighbours:
  assumes "L = xs @ a # b # ys" and "extends_chunk a b" and "\<not> is_const_bit a"
  shows "\<exists>c\<in>set (chunks L). mergeable c \<and> a \<in> set c \<and> b \<in> set c"
  using assms(1)
proof (induction xs arbitrary: L)
  case Nil
  obtain c0 cs0 where ch: "chunks (b # ys) = c0 # cs0"
    using chunks_nonempty[of "b # ys"] by (cases "chunks (b # ys)") simp_all
  have "hd c0 = b" using chunks_hd[of "b # ys"] ch by simp
  moreover have "c0 \<noteq> []" using chunks_parts[of c0 "b # ys"] ch by simp
  ultimately have "b \<in> set c0" by (cases c0) auto
  then show ?case
    using Nil ch assms(2,3) \<open>c0 \<noteq> []\<close> by (auto simp add: mergeable_def)
next
  case (Cons x xs)
  let ?L' = "xs @ a # b # ys"
  from Cons.IH[of ?L'] obtain c where c: "c \<in> set (chunks ?L')" "mergeable c" "a \<in> set c" "b \<in> set c"
    by auto
  obtain y rest where L': "?L' = y # rest" by (cases ?L') simp_all
  obtain c0 cs0 where ch: "chunks ?L' = c0 # cs0"
    using chunks_nonempty[of ?L'] by (cases "chunks ?L'") simp_all
  have hd0: "hd c0 = y" using chunks_hd[of ?L'] ch L' by simp
  have ne0: "c0 \<noteq> []" using chunks_parts[of c0 ?L'] ch by simp
  show ?case
  proof (cases "extends_chunk x y")
    case False
    then have "chunks L = [x] # chunks ?L'" using Cons.prems L' by simp
    then show ?thesis using c by auto
  next
    case True
    then have chL: "chunks L = (x # c0) # cs0" using Cons.prems L' ch by simp
    show ?thesis
    proof (cases "c = c0")
      case False
      then have "c \<in> set cs0" using c(1) ch by simp
      then show ?thesis using chL c by auto
    next
      case same: True
      have "\<not> is_const_bit (hd c0)" using c(2) same ne0 by (cases c0) (auto simp add: mergeable_def)
      then have "\<not> is_const_bit x" using True hd0 extends_chunk_wire by blast
      then have "mergeable (x # c0)" using ne0 by (simp add: mergeable_def)
      then show ?thesis using chL c same by auto
    qed
  qed
qed

lemma neighbours_chunk:
  assumes "SigWire w i \<in> set bits" and "SigWire w (Suc i) \<in> set bits"
  shows "\<exists>c\<in>set (chunks (sort_and_unify bits)). mergeable c \<and> SigWire w i \<in> set c"
proof -
  let ?L = "sort_and_unify bits"
  have "SigWire w i \<in> set ?L" and "SigWire w (Suc i) \<in> set ?L"
    using assms by (simp_all add: set_sort_and_unify)
  with neighbours_adjacent[OF sort_and_unify_sorted sort_and_unify_distinct, of w i bits]
  obtain xs ys where "?L = xs @ SigWire w i # SigWire w (Suc i) # ys"
    by blast
  from chunk_of_neighbours[OF this] show ?thesis by auto
qed


lemma map_err_InrD: "map_err f xs = Inr ys \<Longrightarrow> x \<in> set xs \<Longrightarrow> \<exists>y. f x = Inr y"
  by (induction xs arbitrary: ys) (auto dest!: bind_err_InrD)

lemma as_bit_InrD: "as_bit s = Inr b \<Longrightarrow> s = [b]"
  by (cases s; cases "tl s") (auto simp add: as_bit_def split: list.splits)

lemma iteration_parts:
  assumes "merge_iteration clock pol st = Inr st'"
  shows "\<exists>dbits. map_err (\<lambda>c. bind_err (getPort c (pub ''D'')) (\<lambda>s. as_bit (map (ms_sigmap st) s)))
                   (ms_candidates st) = Inr dbits
               \<and> fold_err (process_chunk clock pol
                             (\<lambda>b. map snd (filter (\<lambda>p. fst p = b) (zip dbits (ms_candidates st)))))
                    (chunks (sort_and_unify dbits)) (st\<lparr>ms_keep_running := False\<rparr>) = Inr st'"
  using assms unfolding merge_iteration_def Let_def by (rule bind_err_InrD)

lemma iteration_shrinks:
  assumes "merge_iteration clock pol st = Inr st'"
  shows "set (ms_candidates st') \<subseteq> set (ms_candidates st)"
proof -
  from iteration_parts[OF assms] obtain dbits where
    "fold_err (process_chunk clock pol
                 (\<lambda>b. map snd (filter (\<lambda>p. fst p = b) (zip dbits (ms_candidates st)))))
       (chunks (sort_and_unify dbits)) (st\<lparr>ms_keep_running := False\<rparr>) = Inr st'"
    by blast
  from fold_chunks_candidates[OF this] show ?thesis by auto
qed

lemma loop_shrinks:
  "merge_loop fuel clock pol st = Some (Inr st') \<Longrightarrow>
   set (ms_candidates st') \<subseteq> set (ms_candidates st)"
proof (induction fuel arbitrary: st)
  case 0
  then show ?case by simp
next
  case (Suc fuel)
  show ?case
  proof (cases "ms_keep_running st")
    case False
    then show ?thesis using Suc.prems by simp
  next
    case True
    then obtain st1 where a: "merge_iteration clock pol st = Inr st1"
      and b: "merge_loop fuel clock pol st1 = Some (Inr st')"
      using Suc.prems by (auto split: sum.splits)
    show ?thesis using iteration_shrinks[OF a] Suc.IH[OF b] by blast
  qed
qed

lemma first_round:
  assumes "merge_iteration clock pol
             \<lparr>ms_module = m, ms_candidates = cands, ms_sigmap = (\<lambda>b. b), ms_keep_running = r\<rparr>
           = Inr st1"
  shows "(\<forall>c\<in>set cands. getPort c (pub ''D'') = Inr [ff_d c])
       \<and> no_neighbours (ff_d ` set (ms_candidates st1))"
proof -
  let ?st = "\<lparr>ms_module = m, ms_candidates = cands, ms_sigmap = (\<lambda>b. b), ms_keep_running = r\<rparr>"
  from iteration_parts[OF assms] obtain dbits where
    bits: "map_err (\<lambda>c. bind_err (getPort c (pub ''D'')) as_bit) cands = Inr dbits"
    and fold: "fold_err (process_chunk clock pol
                 (\<lambda>b. map snd (filter (\<lambda>p. fst p = b) (zip dbits cands))))
       (chunks (sort_and_unify dbits)) (?st\<lparr>ms_keep_running := False\<rparr>) = Inr st1"
    by auto
  have valid: "getPort c (pub ''D'') = Inr [ff_d c]" if "c \<in> set cands" for c
  proof -
    from map_err_InrD[OF bits that] obtain b where
      "bind_err (getPort c (pub ''D'')) as_bit = Inr b" by blast
    then obtain s where "getPort c (pub ''D'') = Inr s" and "as_bit s = Inr b"
      by (auto dest!: bind_err_InrD)
    then show ?thesis by (auto simp add: ff_d_def dest!: as_bit_InrD)
  qed
  have "map_err (\<lambda>c. bind_err (getPort c (pub ''D'')) as_bit) cands = Inr (map ff_d cands)"
    by (rule map_err_all) (simp add: valid bind_err_def as_bit_def)
  then have dbits: "dbits = map ff_d cands" using bits by simp
  have left: "ms_candidates st1 =
      filter (\<lambda>x. \<forall>c\<in>set (chunks (sort_and_unify dbits)).
                 mergeable c \<longrightarrow> (\<forall>b\<in>set c. x \<notin> set (filter (\<lambda>c. ff_d c = b) cands))) cands"
    using fold_chunks_candidates[OF fold] by (simp add: dbits dbits_db_filter)
  have "no_neighbours (ff_d ` set (ms_candidates st1))"
    unfolding no_neighbours_def
  proof
    fix b
    assume b: "b \<in> ff_d ` set (ms_candidates st1)"
    show "case b of SigConst _ \<Rightarrow> True | SigWire w i \<Rightarrow> SigWire w (Suc i) \<notin> ff_d ` set (ms_candidates st1)"
    proof (cases b)
      case (SigConst s)
      then show ?thesis by simp
    next
      case (SigWire w i)
      have "SigWire w (Suc i) \<notin> ff_d ` set (ms_candidates st1)"
      proof
        assume nb: "SigWire w (Suc i) \<in> ff_d ` set (ms_candidates st1)"
        from b SigWire obtain x where x: "x \<in> set (ms_candidates st1)" "ff_d x = SigWire w i"
          by auto
        have sub: "set (ms_candidates st1) \<subseteq> set cands" using left by auto
        have "SigWire w i \<in> set dbits" and "SigWire w (Suc i) \<in> set dbits"
          using b nb SigWire sub unfolding dbits by auto
        from neighbours_chunk[OF this] obtain c where
          c: "c \<in> set (chunks (sort_and_unify dbits))" "mergeable c" "SigWire w i \<in> set c"
          by blast
        have "x \<notin> set (filter (\<lambda>c. ff_d c = SigWire w i) cands)"
          using x(1) c unfolding left by auto
        then show False using x sub by auto
      qed
      then show ?thesis using SigWire by simp
    qed
  qed
  then show ?thesis using valid by blast
qed

lemma no_neighbours_subset: "no_neighbours S \<Longrightarrow> T \<subseteq> S \<Longrightarrow> no_neighbours T"
  by (auto simp add: no_neighbours_def split: sigbit.splits)

lemma merge_past_ffs_clock_twice:
  assumes "merge_past_ffs_clock fuel m cands clock pol = Some (Inr (m', left))"
  shows "merge_past_ffs_clock fuel m' left clock pol = Some (Inr (m', left))"
proof -
  let ?st = "\<lparr>ms_module = m, ms_candidates = cands, ms_sigmap = (\<lambda>b. b), ms_keep_running = True\<rparr>"
  from assms obtain stf where loop: "merge_loop fuel clock pol ?st = Some (Inr stf)"
    and res: "m' = ms_module stf" "left = ms_candidates stf"
    by (auto simp add: merge_past_ffs_clock_def split: option.splits sum.splits)
  from loop obtain f where fuel: "fuel = Suc f" by (cases fuel) simp_all
  from loop obtain st1 where it: "merge_iteration clock pol ?st = Inr st1"
    and rest: "merge_loop f clock pol st1 = Some (Inr stf)"
    unfolding fuel by (auto split: sum.splits)
  from rest obtain f' where f: "f = Suc f'" by (cases f) simp_all
  have sub1: "set (ms_candidates st1) \<subseteq> set cands"
    using iteration_shrinks[OF it] by simp
  have sub2: "set left \<subseteq> set (ms_candidates st1)"
    using loop_shrinks[OF rest] res by simp
  have first: "\<forall>c\<in>set cands. getPort c (pub ''D'') = Inr [ff_d c]"
    "no_neighbours (ff_d ` set (ms_candidates st1))"
    using first_round[OF it] by simp_all
  have valid: "\<And>c. c \<in> set left \<Longrightarrow> getPort c (pub ''D'') = Inr [ff_d c]"
    using first(1) sub1 sub2 by blast
  have "no_neighbours (ff_d ` set left)"
    using first(2) sub2 by (auto intro: no_neighbours_subset)
  with valid have "merge_iteration clock pol
           \<lparr>ms_module = m', ms_candidates = left, ms_sigmap = (\<lambda>b. b), ms_keep_running = True\<rparr>
         = Inr \<lparr>ms_module = m', ms_candidates = left, ms_sigmap = (\<lambda>b. b), ms_keep_running = False\<rparr>"
    by (rule quiet_iteration)
  then show ?thesis
    by (simp add: merge_past_ffs_clock_def fuel f)
qed

lemma fresh_names_below:
  "fresh_names m \<Longrightarrow> c \<in> set (mod_cells m) \<Longrightarrow> name_below (mod_autoidx m) c"
  by (auto simp add: fresh_names_def name_below_def list_all_iff)

lemma fold_err_invariant:
  assumes "\<And>x s s'. x \<in> set xs \<Longrightarrow> f x s = Inr s' \<Longrightarrow> P s \<Longrightarrow> P s'"
    and "fold_err f xs s = Inr s'" and "P s"
  shows "P s'"
  using assms
proof (induction xs arbitrary: s)
  case Nil
  then show ?case by simp
next
  case (Cons x xs)
  from Cons.prems(2) obtain s1 where a: "f x s = Inr s1" and b: "fold_err f xs s1 = Inr s'"
    by (auto dest!: bind_err_InrD)
  have "P s1" using Cons.prems(1)[OF _ a Cons.prems(3)] by simp
  then show ?case using Cons.IH[OF _ b] Cons.prems(1) by auto
qed

lemma kept_replace:
  assumes "replace_ff nq old st = Inr st'" and "kept c st"
  shows "kept c st'"
proof -
  from assms(1) obtain old_q where
    st': "st' = st\<lparr>ms_sigmap := sigmap_add (ms_sigmap st) old_q nq,
                   ms_module := (module_connect (ms_module st) [old_q] [nq])
                      \<lparr>mod_cells := filter (\<lambda>x. cell_name x \<noteq> cell_name old)
                                     (mod_cells (module_connect (ms_module st) [old_q] [nq]))\<rparr>,
                   ms_candidates := removeAll old (ms_candidates st),
                   ms_keep_running := True\<rparr>"
    by (auto simp add: replace_ff_def module_remove_def dest!: bind_err_InrD split: if_splits)
  show ?thesis
    using assms(2) unfolding st' kept_def
    by (auto simp add: module_connect_def)
qed

lemma kept_chunk:
  assumes "process_chunk clock pol db c' st = Inr st'" and "kept c st"
  shows "kept c st'"
proof (cases "mergeable c'")
  case False
  then show ?thesis using assms by (simp add: process_chunk_skip)
next
  case True
  then obtain w k where hd: "hd c' = SigWire w k" and len: "2 \<le> length c'"
    by (cases c'; cases "hd c'"; cases "tl c'") (auto simp add: mergeable_def)
  let ?a = "mod_autoidx (ms_module st)"
  let ?st = "st\<lparr>ms_module := (ms_module st)
                   \<lparr>mod_wires := mod_wires (ms_module st) @
                      [\<lparr>wire_name = AutoId ?a, wire_width = length c', wire_attributes = []\<rparr>],
                    mod_cells := mod_cells (ms_module st) @
                      [\<lparr>cell_name = AutoId (?a + 1), cell_type = ''$dff'',
                        cell_parameters = [(pub ''CLK_POLARITY'', Const_bool pol),
                                           (pub ''WIDTH'', Const_int (int (length c')))],
                        cell_ports = [(pub ''CLK'', [clock]), (pub ''D'', c'),
                                      (pub ''Q'', map (SigWire (AutoId ?a)) [0..<length c'])]\<rparr>],
                    mod_autoidx := ?a + 2\<rparr>\<rparr>"
  have start: "kept c ?st"
    using assms(2) by (auto simp add: kept_def name_below_def split: idstring.splits)
  have fold: "fold_err (\<lambda>i. fold_err (replace_ff (map (SigWire (AutoId ?a)) [0..<length c'] ! i))
                                (db (c' ! i)))
                [0..<length c'] ?st = Inr st'"
    using assms(1) unfolding process_chunk_wire[OF hd len] .
  show ?thesis
  proof (rule fold_err_invariant[where P = "kept c", OF _ fold start])
    fix i s s'
    assume "fold_err (replace_ff (map (SigWire (AutoId ?a)) [0..<length c'] ! i)) (db (c' ! i)) s
            = Inr s'" and "kept c s"
    then show "kept c s'"
      by (rule fold_err_invariant[where P = "kept c", rotated 1]) (rule kept_replace)
  qed
qed

lemma kept_iteration:
  assumes "merge_iteration clock pol st = Inr st'" and "kept c st"
  shows "kept c st'"
proof -
  from iteration_parts[OF assms(1)] obtain dbits where
    fold: "fold_err (process_chunk clock pol
                 (\<lambda>b. map snd (filter (\<lambda>p. fst p = b) (zip dbits (ms_candidates st)))))
       (chunks (sort_and_unify dbits)) (st\<lparr>ms_keep_running := False\<rparr>) = Inr st'"
    by blast
  have "kept c (st\<lparr>ms_keep_running := False\<rparr>)"
    using assms(2) by (simp add: kept_def)
  with fold show ?thesis
    by (rule fold_err_invariant[where P = "kept c", rotated 1]) (rule kept_chunk)
qed

lemma kept_loop:
  "merge_loop fuel clock pol st = Some (Inr st') \<Longrightarrow> kept c st \<Longrightarrow> kept c st'"
proof (induction fuel arbitrary: st)
  case 0
  then show ?case by simp
next
  case (Suc fuel)
  show ?case
  proof (cases "ms_keep_running st")
    case False
    then show ?thesis using Suc.prems by simp
  next
    case True
    then obtain st1 where a: "merge_iteration clock pol st = Inr st1"
      and b: "merge_loop fuel clock pol st1 = Some (Inr st')"
      using Suc.prems by (auto split: sum.splits)
    show ?thesis using Suc.IH[OF b kept_iteration[OF a Suc.prems(2)]] .
  qed
qed


lemma clock_run_parts:
  assumes "merge_past_ffs_clock fuel m cs clock pol = Some (Inr (m', left))"
  shows "\<exists>f st1 stf. fuel = Suc (Suc f)
           \<and> merge_iteration clock pol
                \<lparr>ms_module = m, ms_candidates = cs, ms_sigmap = (\<lambda>b. b), ms_keep_running = True\<rparr>
               = Inr st1
           \<and> merge_loop (Suc f) clock pol st1 = Some (Inr stf)
           \<and> merge_loop fuel clock pol
                \<lparr>ms_module = m, ms_candidates = cs, ms_sigmap = (\<lambda>b. b), ms_keep_running = True\<rparr>
               = Some (Inr stf)
           \<and> m' = ms_module stf \<and> left = ms_candidates stf"
proof -
  let ?st = "\<lparr>ms_module = m, ms_candidates = cs, ms_sigmap = (\<lambda>b. b), ms_keep_running = True\<rparr>"
  from assms obtain stf where loop: "merge_loop fuel clock pol ?st = Some (Inr stf)"
    and res: "m' = ms_module stf" "left = ms_candidates stf"
    by (auto simp add: merge_past_ffs_clock_def split: option.splits sum.splits)
  from loop obtain f where fuel: "fuel = Suc f" by (cases fuel) simp_all
  from loop obtain st1 where it: "merge_iteration clock pol ?st = Inr st1"
    and rest: "merge_loop f clock pol st1 = Some (Inr stf)"
    unfolding fuel by (auto split: sum.splits)
  from rest obtain f' where f: "f = Suc f'" by (cases f) simp_all
  show ?thesis using fuel f it rest loop res by auto
qed

lemma clock_run_leftovers:
  assumes "merge_past_ffs_clock fuel m cs clock pol = Some (Inr (m', left))"
  shows "2 \<le> fuel" and "set left \<subseteq> set cs"
    and "\<forall>c\<in>set cs. getPort c (pub ''D'') = Inr [ff_d c]"
    and "no_neighbours (ff_d ` set left)"
proof -
  from clock_run_parts[OF assms] obtain f st1 stf where
    fuel: "fuel = Suc (Suc f)"
    and it: "merge_iteration clock pol
                \<lparr>ms_module = m, ms_candidates = cs, ms_sigmap = (\<lambda>b. b), ms_keep_running = True\<rparr>
               = Inr st1"
    and rest: "merge_loop (Suc f) clock pol st1 = Some (Inr stf)"
    and res: "m' = ms_module stf" "left = ms_candidates stf"
    by blast
  show "2 \<le> fuel" using fuel by simp
  have sub1: "set (ms_candidates st1) \<subseteq> set cs"
    using iteration_shrinks[OF it] by simp
  have sub2: "set left \<subseteq> set (ms_candidates st1)"
    using loop_shrinks[OF rest] res by simp
  show "set left \<subseteq> set cs" using sub1 sub2 by blast
  show "\<forall>c\<in>set cs. getPort c (pub ''D'') = Inr [ff_d c]"
    using first_round[OF it] by simp
  have "no_neighbours (ff_d ` set (ms_candidates st1))"
    using first_round[OF it] by simp
  then show "no_neighbours (ff_d ` set left)"
    using sub2 by (auto intro: no_neighbours_subset)
qed

lemma clock_run_kept:
  assumes "merge_past_ffs_clock fuel m cs clock pol = Some (Inr (m', left))"
    and "name_below (mod_autoidx m) c"
    and "c \<in> set cs \<or> cell_name c \<notin> cell_name ` set (mod_cells m)"
  shows "name_below (mod_autoidx m') c"
    and "c \<in> set left \<or> cell_name c \<notin> cell_name ` set (mod_cells m')"
proof -
  from clock_run_parts[OF assms(1)] obtain stf where
    loop: "merge_loop fuel clock pol
             \<lparr>ms_module = m, ms_candidates = cs, ms_sigmap = (\<lambda>b. b), ms_keep_running = True\<rparr>
           = Some (Inr stf)"
    and res: "m' = ms_module stf" "left = ms_candidates stf"
    by blast
  have "kept c \<lparr>ms_module = m, ms_candidates = cs, ms_sigmap = (\<lambda>b. b), ms_keep_running = True\<rparr>"
    using assms(2,3) by (simp add: kept_def)
  from kept_loop[OF loop this] res
  show "name_below (mod_autoidx m') c"
    and "c \<in> set left \<or> cell_name c \<notin> cell_name ` set (mod_cells m')"
    by (simp_all add: kept_def)
qed

lemma quiet_run:
  assumes "\<And>c. c \<in> set cs \<Longrightarrow> getPort c (pub ''D'') = Inr [ff_d c]"
    and "no_neighbours (ff_d ` set cs)"
    and "2 \<le> fuel"
  shows "merge_past_ffs_clock fuel m cs clock pol = Some (Inr (m, cs))"
proof -
  from assms(3) obtain f where fuel: "fuel = Suc (Suc f)"
    by (metis Suc_le_D numeral_2_eq_2 Suc_le_mono)
  from assms(1,2) have "merge_iteration clock pol
           \<lparr>ms_module = m, ms_candidates = cs, ms_sigmap = (\<lambda>b. b), ms_keep_running = True\<rparr>
         = Inr \<lparr>ms_module = m, ms_candidates = cs, ms_sigmap = (\<lambda>b. b), ms_keep_running = False\<rparr>"
    by (rule quiet_iteration)
  then show ?thesis
    by (simp add: merge_past_ffs_clock_def fuel)
qed

lemma merge_groups_quiet:
  assumes "\<And>k. k \<in> set ks \<Longrightarrow>
             merge_past_ffs_clock fuel m (map snd (filter (\<lambda>p. fst p = k) filed)) (fst k) (snd k)
             = Some (Inr (m, map snd (filter (\<lambda>p. fst p = k) filed)))"
  shows "merge_groups fuel filed ks m = Some (Inr m)"
  using assms by (induction ks) simp_all

lemma autoidx_replace:
  "replace_ff nq old st = Inr st' \<Longrightarrow> mod_autoidx (ms_module st') = mod_autoidx (ms_module st)"
  by (auto simp add: replace_ff_def module_remove_def module_connect_def
      dest!: bind_err_InrD split: if_splits)

lemma name_below_mono: "name_below a c \<Longrightarrow> a \<le> b \<Longrightarrow> name_below b c"
  by (auto simp add: name_below_def split: idstring.splits)

lemma autoidx_chunk:
  assumes "process_chunk clock pol db c' st = Inr st'" and "a \<le> mod_autoidx (ms_module st)"
  shows "a \<le> mod_autoidx (ms_module st')"
proof (cases "mergeable c'")
  case False
  then show ?thesis using assms by (simp add: process_chunk_skip)
next
  case True
  then obtain w k where hd: "hd c' = SigWire w k" and len: "2 \<le> length c'"
    by (cases c'; cases "hd c'"; cases "tl c'") (auto simp add: mergeable_def)
  show ?thesis
    using assms(1) unfolding process_chunk_wire[OF hd len]
  proof (rule fold_err_invariant[where P = "\<lambda>s. a \<le> mod_autoidx (ms_module s)", rotated 1])
    show "a \<le> mod_autoidx (ms_module (st\<lparr>ms_module := ms_module st
        \<lparr>mod_wires := mod_wires (ms_module st) @
           [\<lparr>wire_name = AutoId (mod_autoidx (ms_module st)), wire_width = length c',
             wire_attributes = []\<rparr>],
         mod_cells := mod_cells (ms_module st) @
           [\<lparr>cell_name = AutoId (mod_autoidx (ms_module st) + 1), cell_type = ''$dff'',
             cell_parameters = [(pub ''CLK_POLARITY'', Const_bool pol),
                                (pub ''WIDTH'', Const_int (int (length c')))],
             cell_ports = [(pub ''CLK'', [clock]), (pub ''D'', c'),
                           (pub ''Q'', map (SigWire (AutoId (mod_autoidx (ms_module st))))
                                         [0..<length c'])]\<rparr>],
         mod_autoidx := mod_autoidx (ms_module st) + 2\<rparr>\<rparr>))"
      using assms(2) by simp
  next
    fix i s s'
    assume "fold_err (replace_ff (map (SigWire (AutoId (mod_autoidx (ms_module st))))
                                    [0..<length c'] ! i)) (db (c' ! i)) s = Inr s'"
      and "a \<le> mod_autoidx (ms_module s)"
    then show "a \<le> mod_autoidx (ms_module s')"
      by (rule fold_err_invariant[where P = "\<lambda>s. a \<le> mod_autoidx (ms_module s)", rotated 1])
         (simp add: autoidx_replace)
  qed
qed

lemma autoidx_iteration:
  assumes "merge_iteration clock pol st = Inr st'" and "a \<le> mod_autoidx (ms_module st)"
  shows "a \<le> mod_autoidx (ms_module st')"
proof -
  from iteration_parts[OF assms(1)] obtain dbits where
    fold: "fold_err (process_chunk clock pol
                 (\<lambda>b. map snd (filter (\<lambda>p. fst p = b) (zip dbits (ms_candidates st)))))
       (chunks (sort_and_unify dbits)) (st\<lparr>ms_keep_running := False\<rparr>) = Inr st'"
    by blast
  have "a \<le> mod_autoidx (ms_module (st\<lparr>ms_keep_running := False\<rparr>))"
    using assms(2) by simp
  with fold show ?thesis
    by (rule fold_err_invariant[where P = "\<lambda>s. a \<le> mod_autoidx (ms_module s)", rotated 1])
       (rule autoidx_chunk)
qed

lemma autoidx_loop:
  "merge_loop fuel clock pol st = Some (Inr st') \<Longrightarrow> a \<le> mod_autoidx (ms_module st) \<Longrightarrow>
   a \<le> mod_autoidx (ms_module st')"
proof (induction fuel arbitrary: st)
  case 0
  then show ?case by simp
next
  case (Suc fuel)
  show ?case
  proof (cases "ms_keep_running st")
    case False
    then show ?thesis using Suc.prems by simp
  next
    case True
    then obtain st1 where a: "merge_iteration clock pol st = Inr st1"
      and b: "merge_loop fuel clock pol st1 = Some (Inr st')"
      using Suc.prems by (auto split: sum.splits)
    show ?thesis using Suc.IH[OF b autoidx_iteration[OF a Suc.prems(2)]] .
  qed
qed

lemma clock_run_below:
  assumes "merge_past_ffs_clock fuel m cs clock pol = Some (Inr (m', left))"
    and "name_below (mod_autoidx m) c"
  shows "name_below (mod_autoidx m') c"
proof -
  from clock_run_parts[OF assms(1)] obtain stf where
    loop: "merge_loop fuel clock pol
             \<lparr>ms_module = m, ms_candidates = cs, ms_sigmap = (\<lambda>b. b), ms_keep_running = True\<rparr>
           = Some (Inr stf)"
    and res: "m' = ms_module stf"
    by blast
  from autoidx_loop[OF loop, of "mod_autoidx m"] res have "mod_autoidx m \<le> mod_autoidx m'"
    by simp
  with assms(2) show ?thesis by (rule name_below_mono)
qed

lemma group_filter:
  "map snd (filter (\<lambda>p. fst p = k) (zip (map key cands) cands)) = filter (\<lambda>c. key c = k) cands"
  by (induction cands) simp_all

lemma merge_groups_inv:
  assumes "merge_groups fuel (zip (map key cands) cands) ks m = Some (Inr m')"
    and "distinct ks"
    and "\<forall>c\<in>set cands. name_below (mod_autoidx m) c"
    and "\<forall>c\<in>set cands. cell_name c \<in> cell_name ` set (mod_cells m) \<longrightarrow> key c \<notin> set ks
           \<longrightarrow> getPort c (pub ''D'') = Inr [ff_d c]"
    and "\<forall>k. k \<notin> set ks \<longrightarrow>
           no_neighbours (ff_d ` {c \<in> set cands. cell_name c \<in> cell_name ` set (mod_cells m)
                                                   \<and> key c = k})"
  shows "(\<forall>c\<in>set cands. cell_name c \<in> cell_name ` set (mod_cells m')
            \<longrightarrow> getPort c (pub ''D'') = Inr [ff_d c])
       \<and> (\<forall>k. no_neighbours (ff_d ` {c \<in> set cands. cell_name c \<in> cell_name ` set (mod_cells m')
                                                       \<and> key c = k}))
       \<and> (ks \<noteq> [] \<longrightarrow> 2 \<le> fuel)"
  using assms
proof (induction ks arbitrary: m)
  case Nil
  then show ?case by simp
next
  case (Cons k ks)
  let ?cs = "filter (\<lambda>c. key c = k) cands"
  from Cons.prems(1) obtain m1 left where
    run: "merge_past_ffs_clock fuel m ?cs (fst k) (snd k) = Some (Inr (m1, left))"
    and rest: "merge_groups fuel (zip (map key cands) cands) ks m1 = Some (Inr m')"
    by (auto simp add: group_filter split: option.splits sum.splits)
  note lo = clock_run_leftovers[OF run]
  have k: "k \<notin> set ks" and dist: "distinct ks" using Cons.prems(2) by simp_all
  have below1: "\<forall>c\<in>set cands. name_below (mod_autoidx m1) c"
    using Cons.prems(3) clock_run_below[OF run] by blast
  have gone: "c \<in> set left \<or> cell_name c \<notin> cell_name ` set (mod_cells m1)"
    if "c \<in> set cands" "c \<in> set ?cs \<or> cell_name c \<notin> cell_name ` set (mod_cells m)" for c
    using clock_run_kept(2)[OF run _ that(2)] Cons.prems(3) that(1) by blast
  have old: "cell_name c \<in> cell_name ` set (mod_cells m)"
    if "c \<in> set cands" "key c \<noteq> k" "cell_name c \<in> cell_name ` set (mod_cells m1)" for c
  proof (rule ccontr)
    assume "cell_name c \<notin> cell_name ` set (mod_cells m)"
    then have "c \<in> set left \<or> cell_name c \<notin> cell_name ` set (mod_cells m1)"
      using gone that(1) by blast
    moreover have "c \<notin> set left" using lo(2) that(2) by auto
    ultimately show False using that(3) by blast
  qed
  have new: "c \<in> set left"
    if "c \<in> set cands" "key c = k" "cell_name c \<in> cell_name ` set (mod_cells m1)" for c
    using gone[of c] that by auto
  have valid1: "\<forall>c\<in>set cands. cell_name c \<in> cell_name ` set (mod_cells m1) \<longrightarrow> key c \<notin> set ks
           \<longrightarrow> getPort c (pub ''D'') = Inr [ff_d c]"
  proof (intro ballI impI)
    fix c
    assume c: "c \<in> set cands" "cell_name c \<in> cell_name ` set (mod_cells m1)" "key c \<notin> set ks"
    show "getPort c (pub ''D'') = Inr [ff_d c]"
    proof (cases "key c = k")
      case True
      then show ?thesis using lo(3) c(1) by simp
    next
      case False
      then show ?thesis using Cons.prems(4) old[OF c(1) False c(2)] c(1,3) by simp
    qed
  qed
  have nn1: "\<forall>k'. k' \<notin> set ks \<longrightarrow>
           no_neighbours (ff_d ` {c \<in> set cands. cell_name c \<in> cell_name ` set (mod_cells m1)
                                                   \<and> key c = k'})"
  proof (intro allI impI)
    fix k'
    assume k': "k' \<notin> set ks"
    show "no_neighbours (ff_d ` {c \<in> set cands. cell_name c \<in> cell_name ` set (mod_cells m1)
                                                   \<and> key c = k'})"
    proof (cases "k' = k")
      case True
      have "ff_d ` {c \<in> set cands. cell_name c \<in> cell_name ` set (mod_cells m1) \<and> key c = k'}
            \<subseteq> ff_d ` set left"
        using new True by blast
      with lo(4) show ?thesis by (rule no_neighbours_subset)
    next
      case False
      then have "k' \<notin> set (k # ks)" using k' by simp
      then have "no_neighbours (ff_d ` {c \<in> set cands.
                   cell_name c \<in> cell_name ` set (mod_cells m) \<and> key c = k'})"
        using Cons.prems(5) by blast
      moreover have "ff_d ` {c \<in> set cands. cell_name c \<in> cell_name ` set (mod_cells m1)
                                               \<and> key c = k'}
            \<subseteq> ff_d ` {c \<in> set cands. cell_name c \<in> cell_name ` set (mod_cells m)
                                               \<and> key c = k'}"
        using old False by blast
      ultimately show ?thesis by (rule no_neighbours_subset)
    qed
  qed
  from Cons.IH[OF rest dist below1 valid1 nn1] lo(1) show ?case by simp
qed


lemma no_neighbours_empty: "no_neighbours {}"
  by (simp add: no_neighbours_def)

lemma merge_past_ffs_quiet:
  assumes keys: "\<And>c. c \<in> set cands \<Longrightarrow> ff_clock_key c = Inr (key c)"
    and valid: "\<And>c. c \<in> set cands \<Longrightarrow> getPort c (pub ''D'') = Inr [ff_d c]"
    and nn: "\<And>k. no_neighbours (ff_d ` {c \<in> set cands. key c = k})"
    and fuel: "2 \<le> fuel"
  shows "merge_past_ffs fuel m cands = Some (Inr m)"
proof -
  have "map_err ff_clock_key cands = Inr (map key cands)"
    by (rule map_err_all) (rule keys)
  moreover have "merge_groups fuel (zip (map key cands) cands) (remdups (map key cands)) m
                 = Some (Inr m)"
  proof (rule merge_groups_quiet)
    fix k
    show "merge_past_ffs_clock fuel m
            (map snd (filter (\<lambda>p. fst p = k) (zip (map key cands) cands))) (fst k) (snd k)
          = Some (Inr (m, map snd (filter (\<lambda>p. fst p = k) (zip (map key cands) cands))))"
      unfolding group_filter
    proof (rule quiet_run)
      show "getPort c (pub ''D'') = Inr [ff_d c]" if "c \<in> set (filter (\<lambda>c. key c = k) cands)" for c
        using that valid by simp
      show "no_neighbours (ff_d ` set (filter (\<lambda>c. key c = k) cands))"
        using nn[of k] by (rule no_neighbours_subset) auto
      show "2 \<le> fuel" by fact
    qed
  qed
  ultimately show ?thesis by (simp add: merge_past_ffs_def)
qed

lemma merge_past_ffs_twice:
  assumes run: "merge_past_ffs fuel m cands = Some (Inr m')"
    and fresh: "fresh_names m"
    and inm: "set cands \<subseteq> set (mod_cells m)"
  shows "merge_past_ffs fuel m' (filter (\<lambda>c. c \<in> set (mod_cells m')) cands) = Some (Inr m')"
proof -
  let ?S = "filter (\<lambda>c. c \<in> set (mod_cells m')) cands"
  from run obtain keys where keys: "map_err ff_clock_key cands = Inr keys"
    and groups: "merge_groups fuel (zip keys cands) (remdups keys) m = Some (Inr m')"
    by (auto simp add: merge_past_ffs_def split: sum.splits)
  define key where "key c = (case ff_clock_key c of Inr k \<Rightarrow> k | Inl _ \<Rightarrow> (SigConst Sx, False))"
    for c
  have kv: "ff_clock_key c = Inr (key c)" if "c \<in> set cands" for c
    using map_err_InrD[OF keys that] by (auto simp add: key_def)
  have "map_err ff_clock_key cands = Inr (map key cands)"
    by (rule map_err_all) (rule kv)
  then have keys_eq: "keys = map key cands" using keys by simp
  have below: "\<forall>c\<in>set cands. name_below (mod_autoidx m) c"
    using fresh inm by (auto intro: fresh_names_below)
  have inv: "(\<forall>c\<in>set cands. cell_name c \<in> cell_name ` set (mod_cells m')
                \<longrightarrow> getPort c (pub ''D'') = Inr [ff_d c])
       \<and> (\<forall>k. no_neighbours (ff_d ` {c \<in> set cands. cell_name c \<in> cell_name ` set (mod_cells m')
                                                       \<and> key c = k}))
       \<and> (remdups (map key cands) \<noteq> [] \<longrightarrow> 2 \<le> fuel)"
  proof (rule merge_groups_inv[OF _ _ below])
    show "merge_groups fuel (zip (map key cands) cands) (remdups (map key cands)) m = Some (Inr m')"
      using groups keys_eq by simp
    show "distinct (remdups (map key cands))" by simp
    show "\<forall>c\<in>set cands. cell_name c \<in> cell_name ` set (mod_cells m)
            \<longrightarrow> key c \<notin> set (remdups (map key cands)) \<longrightarrow> getPort c (pub ''D'') = Inr [ff_d c]"
      by simp
    show "\<forall>k. k \<notin> set (remdups (map key cands)) \<longrightarrow>
            no_neighbours (ff_d ` {c \<in> set cands. cell_name c \<in> cell_name ` set (mod_cells m)
                                                    \<and> key c = k})"
    proof (intro allI impI)
      fix k
      assume "k \<notin> set (remdups (map key cands))"
      then have "{c \<in> set cands. cell_name c \<in> cell_name ` set (mod_cells m) \<and> key c = k} = {}"
        by auto
      then show "no_neighbours (ff_d ` {c \<in> set cands.
                   cell_name c \<in> cell_name ` set (mod_cells m) \<and> key c = k})"
        by (simp only: image_empty no_neighbours_empty)
    qed
  qed
  show ?thesis
  proof (cases "?S = []")
    case True
    then show ?thesis by (simp add: merge_past_ffs_def)
  next
    case False
    then have "cands \<noteq> []" by auto
    then have fuel: "2 \<le> fuel" using inv by simp
    show ?thesis
    proof (rule merge_past_ffs_quiet[where key = key])
      show "ff_clock_key c = Inr (key c)" if "c \<in> set ?S" for c
        using that kv by simp
      show "getPort c (pub ''D'') = Inr [ff_d c]" if "c \<in> set ?S" for c
        using that inv by auto
      show "2 \<le> fuel" by fact
      show "no_neighbours (ff_d ` {c \<in> set ?S. key c = k})" for k
      proof (rule no_neighbours_subset)
        show "no_neighbours (ff_d ` {c \<in> set cands.
                cell_name c \<in> cell_name ` set (mod_cells m') \<and> key c = k})"
          using inv by blast
        show "ff_d ` {c \<in> set ?S. key c = k}
              \<subseteq> ff_d ` {c \<in> set cands. cell_name c \<in> cell_name ` set (mod_cells m') \<and> key c = k}"
          by auto
      qed
    qed
  qed
qed

text \<open>
  Claim C4, as the code has it. The registers that \<open>merge_past_ffs\<close> merges are those
  whose inputs are neighbouring bits of one wire. First, let the pool hold, in any order,
  two or more single-bit past-value registers \<open>ffs\<close> of the module \<open>m\<close> on the same
  clock and polarity, the register \<open>ffs ! i\<close> sampling bit \<open>k + i\<close> of the wire \<open>w\<close>
  and driving \<open>q i\<close>: then the coalescer returns, for any fuel of three rounds or more,
  the module in which one new register as wide as there are registers has taken the place
  of all of them, each old output \<open>q i\<close> connected to bit \<open>i\<close> of the new output, and
  no candidate is left. Second, candidates of which no two on the same clock and polarity
  sample neighbouring bits of a wire, such as registers that all sample the same bit, are
  left as they are. Third, when \<open>merge_past_ffs\<close> has returned, a second run on the
  module it returned and the candidates that are still in that module returns the same
  module; and so does a second run of \<open>merge_past_ffs_clock\<close> on the module and the
  candidates that it has left.
\<close>

theorem past_ffs_merged:
  "(2 \<le> length ffs
      \<and> (\<forall>i<length ffs. past_ff clock clock_pol (SigWire w (k + i)) (q i) (ffs ! i))
      \<and> set pool = set ffs \<and> distinct pool
      \<and> set ffs \<subseteq> set (mod_cells m)
      \<and> distinct (map cell_name (mod_cells m))
      \<and> fresh_names m
      \<and> 3 \<le> fuel
    \<longrightarrow> merge_past_ffs fuel m pool = Some (Inr (merged_module m ffs clock clock_pol w k q))
        \<and> merge_past_ffs_clock fuel m pool clock clock_pol
            = Some (Inr (merged_module m ffs clock clock_pol w k q, [])))
   \<and> ((\<forall>c\<in>set quiet. ff_clock_key c = Inr (key c) \<and> getPort c (pub ''D'') = Inr [ff_d c])
        \<and> (\<forall>g. no_neighbours (ff_d ` {c \<in> set quiet. key c = g}))
        \<and> 2 \<le> qfuel
    \<longrightarrow> merge_past_ffs qfuel qm quiet = Some (Inr qm))
   \<and> (merge_past_ffs rfuel before cands = Some (Inr after)
        \<and> fresh_names before \<and> set cands \<subseteq> set (mod_cells before)
    \<longrightarrow> merge_past_ffs rfuel after (filter (\<lambda>c. c \<in> set (mod_cells after)) cands)
          = Some (Inr after))
   \<and> (merge_past_ffs_clock fuel' start others clock' clock_pol' = Some (Inr (result, left))
    \<longrightarrow> merge_past_ffs_clock fuel' result left clock' clock_pol' = Some (Inr (result, left)))"
proof (intro conjI impI)
  assume a: "2 \<le> length ffs
      \<and> (\<forall>i<length ffs. past_ff clock clock_pol (SigWire w (k + i)) (q i) (ffs ! i))
      \<and> set pool = set ffs \<and> distinct pool
      \<and> set ffs \<subseteq> set (mod_cells m)
      \<and> distinct (map cell_name (mod_cells m))
      \<and> fresh_names m
      \<and> 3 \<le> fuel"
  then obtain fuel'' where fuel: "fuel = Suc (Suc (Suc fuel''))"
    by (metis Suc_le_D numeral_3_eq_3 Suc_le_mono)
  have n: "2 \<le> length ffs" and pool: "set pool = set ffs" "distinct pool"
    and inm: "set ffs \<subseteq> set (mod_cells m)" and wf: "distinct (map cell_name (mod_cells m))"
    and fresh: "fresh_names m"
    using a by simp_all
  have regs: "past_ff clock clock_pol (SigWire w (k + i)) (q i) (ffs ! i)" if "i < length ffs" for i
    using a that by simp
  have "distinct ffs"
  proof -
    have "i = j" if "i < length ffs" "j < length ffs" "ffs ! i = ffs ! j" for i j
    proof -
      have "getPort (ffs ! i) (pub ''D'') = Inr [SigWire w (k + i)]"
        using regs[OF that(1)] by (simp add: past_ff_def)
      moreover have "getPort (ffs ! i) (pub ''D'') = Inr [SigWire w (k + j)]"
        using regs[OF that(2)] that(3) by (simp add: past_ff_def)
      ultimately show ?thesis by simp
    qed
    then show ?thesis by (auto simp add: distinct_conv_nth)
  qed
  moreover have "inj_on cell_name (set ffs)"
    using inm wf by (auto simp add: distinct_map intro: inj_on_subset)
  ultimately have names: "distinct (map cell_name ffs)"
    by (simp add: distinct_map)
  show run: "merge_past_ffs_clock fuel m pool clock clock_pol
             = Some (Inr (merged_module m ffs clock clock_pol w k q, []))"
    unfolding fuel
    by (rule merge_past_ffs_clock_run[OF n regs pool inm names fresh])
  have key: "ff_clock_key c = Inr (clock, clock_pol)" if "c \<in> set pool" for c
  proof -
    from that obtain i where "i < length ffs" and "c = ffs ! i"
      using pool by (auto simp add: in_set_conv_nth)
    then show ?thesis
      using regs[of i]
      by (auto simp add: past_ff_def ff_clock_key_def bind_err_def as_bit_def split: sum.splits)
  qed
  have "pool \<noteq> []" using n pool by auto
  show "merge_past_ffs fuel m pool = Some (Inr (merged_module m ffs clock clock_pol w k q))"
    using key \<open>pool \<noteq> []\<close> run by (rule merge_past_ffs_one_group)
next
  assume a: "(\<forall>c\<in>set quiet. ff_clock_key c = Inr (key c) \<and> getPort c (pub ''D'') = Inr [ff_d c])
        \<and> (\<forall>g. no_neighbours (ff_d ` {c \<in> set quiet. key c = g}))
        \<and> 2 \<le> qfuel"
  show "merge_past_ffs qfuel qm quiet = Some (Inr qm)"
  proof (rule merge_past_ffs_quiet[where key = key])
    show "ff_clock_key c = Inr (key c)" if "c \<in> set quiet" for c using a that by simp
    show "getPort c (pub ''D'') = Inr [ff_d c]" if "c \<in> set quiet" for c using a that by simp
    show "no_neighbours (ff_d ` {c \<in> set quiet. key c = g})" for g using a by blast
    show "2 \<le> qfuel" using a by simp
  qed
next
  assume "merge_past_ffs rfuel before cands = Some (Inr after)
        \<and> fresh_names before \<and> set cands \<subseteq> set (mod_cells before)"
  then have "merge_past_ffs rfuel before cands = Some (Inr after)"
    and "fresh_names before" and "set cands \<subseteq> set (mod_cells before)"
    by simp_all
  then show "merge_past_ffs rfuel after (filter (\<lambda>c. c \<in> set (mod_cells after)) cands)
             = Some (Inr after)"
    by (rule merge_past_ffs_twice)
next
  assume "merge_past_ffs_clock fuel' start others clock' clock_pol' = Some (Inr (result, left))"
  then show "merge_past_ffs_clock fuel' result left clock' clock_pol' = Some (Inr (result, left))"
    by (rule merge_past_ffs_clock_twice)
qed

lemmas past_defs = mk_past_ff_def ex_clk_def past_ff_def getPort_def getParam_def Const_bool_def
  pub_def

lemma ex_mixed_keys:
  "map_err ff_clock_key ex_mixed_pool = Inr (replicate 4 (ex_clk, True))"
  by (simp add: ex_mixed_pool_def ex_bus_ffs_def ex_lone_ff_def ff_clock_key_def past_defs
      bind_err_def as_bit_def numeral_eq_Suc)

lemma ex_mixed_bits:
  "sort_and_unify [SigWire (Id (pub ''b'')) 2, SigWire (Id (pub ''b'')) 7,
                   SigWire (Id (pub ''b'')) 0, SigWire (Id (pub ''b'')) 1]
   = [SigWire (Id (pub ''b'')) 0, SigWire (Id (pub ''b'')) 1, SigWire (Id (pub ''b'')) 2,
      SigWire (Id (pub ''b'')) 7]"
  by (simp add: sort_and_unify_def less_eq_prod_def)

lemma ex_mixed_clock_run:
  "merge_past_ffs_clock 3 ex_mixed_module ex_mixed_pool ex_clk True
   = Some (Inr (ex_mixed_merged, [ex_lone_ff]))"
  by (simp add: merge_past_ffs_clock_def numeral_3_eq_3 merge_iteration_def
      ex_mixed_pool_def ex_bus_ffs_def ex_lone_ff_def mk_past_ff_def getPort_def pub_def
      bind_err_def as_bit_def ex_mixed_bits[unfolded pub_def] process_chunk_def
      ex_mixed_module_def ex_mixed_merged_def empty_module_def NEW_ID_def addWire_def addDff_def
      addCell_def SigSpec_of_wire_def replace_ff_def module_remove_def module_connect_def
      ex_clk_def ex_bus_q_def Const_bool_def sort_and_unify_def less_eq_prod_def
      upt_conv_Cons Let_def)

theorem past_ffs_merged_witness:
  "2 \<le> length ex_bus_ffs
   \<and> past_ff ex_clk True (SigWire (Id (pub ''b'')) 0) (ex_bus_q 0) (ex_bus_ffs ! 0)
   \<and> past_ff ex_clk True (SigWire (Id (pub ''b'')) 1) (ex_bus_q 1) (ex_bus_ffs ! 1)
   \<and> past_ff ex_clk True (SigWire (Id (pub ''b'')) 2) (ex_bus_q 2) (ex_bus_ffs ! 2)
   \<and> set ex_bus_pool = set ex_bus_ffs
   \<and> distinct ex_bus_pool
   \<and> set ex_bus_ffs \<subseteq> set (mod_cells ex_bus_module)
   \<and> distinct (map cell_name (mod_cells ex_bus_module))
   \<and> fresh_names ex_bus_module
   \<and> merge_past_ffs 3 ex_bus_module ex_bus_pool
       = Some (Inr (merged_module ex_bus_module ex_bus_ffs ex_clk True (Id (pub ''b'')) 0 ex_bus_q))
   \<and> merge_past_ffs_clock 3 ex_bus_module ex_bus_pool ex_clk True
       = Some (Inr (merged_module ex_bus_module ex_bus_ffs ex_clk True (Id (pub ''b'')) 0 ex_bus_q, []))
   \<and> mod_cells (merged_module ex_bus_module ex_bus_ffs ex_clk True (Id (pub ''b'')) 0 ex_bus_q)
       = [\<lparr>cell_name = AutoId 4, cell_type = ''$dff'',
           cell_parameters = [(pub ''CLK_POLARITY'', Const_bool True), (pub ''WIDTH'', Const_int 3)],
           cell_ports = [(pub ''CLK'', [ex_clk]),
                         (pub ''D'', [SigWire (Id (pub ''b'')) 0, SigWire (Id (pub ''b'')) 1,
                                      SigWire (Id (pub ''b'')) 2]),
                         (pub ''Q'', [SigWire (AutoId 3) 0, SigWire (AutoId 3) 1,
                                      SigWire (AutoId 3) 2])]\<rparr>]
   \<and> mod_conns (merged_module ex_bus_module ex_bus_ffs ex_clk True (Id (pub ''b'')) 0 ex_bus_q)
       = [([SigWire (Id (pub ''x'')) 0], [SigWire (AutoId 3) 0]),
          ([SigWire (Id (pub ''y'')) 0], [SigWire (AutoId 3) 1]),
          ([SigWire (Id (pub ''z'')) 0], [SigWire (AutoId 3) 2])]
   \<and> ff_clock_key (ex_same_input_ffs ! 0) = Inr (ex_clk, True)
   \<and> ff_clock_key (ex_same_input_ffs ! 1) = Inr (ex_clk, True)
   \<and> ff_d (ex_same_input_ffs ! 0) = SigWire (Id (pub ''a'')) 0
   \<and> ff_d (ex_same_input_ffs ! 1) = SigWire (Id (pub ''a'')) 0
   \<and> merge_past_ffs 2 ex_same_input_module ex_same_input_ffs = Some (Inr ex_same_input_module)
   \<and> merge_past_ffs 3 ex_mixed_module ex_mixed_pool = Some (Inr ex_mixed_merged)
   \<and> fresh_names ex_mixed_module
   \<and> set ex_mixed_pool \<subseteq> set (mod_cells ex_mixed_module)
   \<and> filter (\<lambda>c. c \<in> set (mod_cells ex_mixed_merged)) ex_mixed_pool = [ex_lone_ff]
   \<and> merge_past_ffs 3 ex_mixed_merged [ex_lone_ff] = Some (Inr ex_mixed_merged)
   \<and> merge_past_ffs_clock 3 ex_mixed_module ex_mixed_pool ex_clk True
       = Some (Inr (ex_mixed_merged, [ex_lone_ff]))
   \<and> merge_past_ffs_clock 3 ex_mixed_merged [ex_lone_ff] ex_clk True
       = Some (Inr (ex_mixed_merged, [ex_lone_ff]))"
proof -
  have len: "2 \<le> length ex_bus_ffs"
    by (simp add: ex_bus_ffs_def)
  have regs: "past_ff ex_clk True (SigWire (Id (pub ''b'')) 0) (ex_bus_q 0) (ex_bus_ffs ! 0)"
    "past_ff ex_clk True (SigWire (Id (pub ''b'')) 1) (ex_bus_q 1) (ex_bus_ffs ! 1)"
    "past_ff ex_clk True (SigWire (Id (pub ''b'')) 2) (ex_bus_q 2) (ex_bus_ffs ! 2)"
    by (simp_all add: ex_bus_ffs_def ex_bus_q_def past_defs)
  have all: "\<forall>i<length ex_bus_ffs.
               past_ff ex_clk True (SigWire (Id (pub ''b'')) (0 + i)) (ex_bus_q i) (ex_bus_ffs ! i)"
  proof (intro allI impI)
    fix i
    assume "i < length ex_bus_ffs"
    then have "i = 0 \<or> i = 1 \<or> i = 2" by (auto simp add: ex_bus_ffs_def)
    then show "past_ff ex_clk True (SigWire (Id (pub ''b'')) (0 + i)) (ex_bus_q i) (ex_bus_ffs ! i)"
      using regs by auto
  qed
  have pool: "set ex_bus_pool = set ex_bus_ffs" "distinct ex_bus_pool"
    by (auto simp add: ex_bus_pool_def ex_bus_ffs_def mk_past_ff_def)
  have inm: "set ex_bus_ffs \<subseteq> set (mod_cells ex_bus_module)"
    by (simp add: ex_bus_module_def)
  have wf: "distinct (map cell_name (mod_cells ex_bus_module))" "fresh_names ex_bus_module"
    by (simp_all add: ex_bus_module_def ex_bus_ffs_def mk_past_ff_def fresh_names_def)
  have cells: "mod_cells (merged_module ex_bus_module ex_bus_ffs ex_clk True (Id (pub ''b'')) 0 ex_bus_q)
       = [\<lparr>cell_name = AutoId 4, cell_type = ''$dff'',
           cell_parameters = [(pub ''CLK_POLARITY'', Const_bool True), (pub ''WIDTH'', Const_int 3)],
           cell_ports = [(pub ''CLK'', [ex_clk]),
                         (pub ''D'', [SigWire (Id (pub ''b'')) 0, SigWire (Id (pub ''b'')) 1,
                                      SigWire (Id (pub ''b'')) 2]),
                         (pub ''Q'', [SigWire (AutoId 3) 0, SigWire (AutoId 3) 1,
                                      SigWire (AutoId 3) 2])]\<rparr>]"
    by (simp add: merged_module_def ex_bus_module_def ex_bus_ffs_def mk_past_ff_def
        upt_conv_Cons)
  have conns: "mod_conns (merged_module ex_bus_module ex_bus_ffs ex_clk True (Id (pub ''b'')) 0 ex_bus_q)
       = [([SigWire (Id (pub ''x'')) 0], [SigWire (AutoId 3) 0]),
          ([SigWire (Id (pub ''y'')) 0], [SigWire (AutoId 3) 1]),
          ([SigWire (Id (pub ''z'')) 0], [SigWire (AutoId 3) 2])]"
    by (simp add: merged_module_def ex_bus_module_def ex_bus_ffs_def ex_bus_q_def empty_module_def
        upt_conv_Cons)
  have same: "ff_clock_key (ex_same_input_ffs ! 0) = Inr (ex_clk, True)"
    "ff_clock_key (ex_same_input_ffs ! 1) = Inr (ex_clk, True)"
    "getPort (ex_same_input_ffs ! 0) (pub ''D'') = Inr [SigWire (Id (pub ''a'')) 0]"
    "getPort (ex_same_input_ffs ! 1) (pub ''D'') = Inr [SigWire (Id (pub ''a'')) 0]"
    by (simp_all add: ex_same_input_ffs_def ff_clock_key_def past_defs bind_err_def as_bit_def)
  then have same_d: "ff_d (ex_same_input_ffs ! 0) = SigWire (Id (pub ''a'')) 0"
    "ff_d (ex_same_input_ffs ! 1) = SigWire (Id (pub ''a'')) 0"
    by (simp_all add: ff_d_def)
  have members: "set ex_same_input_ffs = {ex_same_input_ffs ! 0, ex_same_input_ffs ! 1}"
    by (auto simp add: ex_same_input_ffs_def)
  have quiet: "\<forall>c\<in>set ex_same_input_ffs.
                 ff_clock_key c = Inr (ex_clk, True) \<and> getPort c (pub ''D'') = Inr [ff_d c]"
    unfolding members using same same_d by simp
  have "no_neighbours {SigWire (Id (pub ''a'')) 0}"
    by (simp add: no_neighbours_def)
  then have alone: "\<forall>g. no_neighbours (ff_d ` {c \<in> set ex_same_input_ffs. (ex_clk, True) = g})"
    unfolding members using same_d by (auto intro: no_neighbours_subset)
  have mixed: "fresh_names ex_mixed_module" "set ex_mixed_pool \<subseteq> set (mod_cells ex_mixed_module)"
    "filter (\<lambda>c. c \<in> set (mod_cells ex_mixed_merged)) ex_mixed_pool = [ex_lone_ff]"
    by (simp_all add: ex_mixed_module_def ex_mixed_pool_def ex_mixed_merged_def ex_bus_ffs_def
        ex_lone_ff_def mk_past_ff_def fresh_names_def empty_module_def pub_def)
  have one_key: "remdups (replicate 4 (ex_clk, True)) = [(ex_clk, True)]"
    by (simp add: numeral_eq_Suc)
  have one_group: "map snd (filter (\<lambda>p. fst p = (ex_clk, True))
                              (zip (replicate 4 (ex_clk, True)) ex_mixed_pool)) = ex_mixed_pool"
    by (simp add: ex_mixed_pool_def numeral_eq_Suc)
  have mixed_run: "merge_past_ffs 3 ex_mixed_module ex_mixed_pool = Some (Inr ex_mixed_merged)"
    by (simp add: merge_past_ffs_def ex_mixed_keys one_key one_group ex_mixed_clock_run)
  note inst = past_ffs_merged [where ffs=ex_bus_ffs and clock=ex_clk and clock_pol=True
      and w="Id (pub ''b'')" and k=0 and q=ex_bus_q and pool=ex_bus_pool and m=ex_bus_module
      and fuel=3 and quiet=ex_same_input_ffs and key="\<lambda>c. (ex_clk, True)" and qfuel=2
      and qm=ex_same_input_module and rfuel=3 and before=ex_mixed_module and cands=ex_mixed_pool
      and after=ex_mixed_merged and fuel'=3 and start=ex_mixed_module and others=ex_mixed_pool
      and clock'=ex_clk and clock_pol'=True and result=ex_mixed_merged and left="[ex_lone_ff]"]
  show ?thesis
    using len regs all pool inm wf cells conns same(1,2) same_d quiet alone mixed mixed_run
      ex_mixed_clock_run inst
    by simp
qed

text \<open>
  The claim as stated fails on two registers with the same clock, the same polarity and the
  same input bit \<open>a[0]\<close>: the sorted input bits are the one bit \<open>a[0]\<close>, a chunk of size
  one, which line 669 skips. Both registers stay, and no shared register is made.
\<close>

theorem same_input_not_merged:
  "past_ff ex_clk True (SigWire (Id (pub ''a'')) 0) (SigWire (Id (pub ''p'')) 0)
     (ex_same_input_ffs ! 0)
   \<and> past_ff ex_clk True (SigWire (Id (pub ''a'')) 0) (SigWire (Id (pub ''r'')) 0)
       (ex_same_input_ffs ! 1)
   \<and> mod_cells ex_same_input_module = ex_same_input_ffs
   \<and> merge_past_ffs 3 ex_same_input_module ex_same_input_ffs = Some (Inr ex_same_input_module)
   \<and> merge_past_ffs_clock 3 ex_same_input_module ex_same_input_ffs ex_clk True
       = Some (Inr (ex_same_input_module, ex_same_input_ffs))"
proof (intro conjI)
  show "past_ff ex_clk True (SigWire (Id (pub ''a'')) 0) (SigWire (Id (pub ''p'')) 0)
          (ex_same_input_ffs ! 0)"
    by (simp add: ex_same_input_ffs_def past_defs)
  show "past_ff ex_clk True (SigWire (Id (pub ''a'')) 0) (SigWire (Id (pub ''r'')) 0)
          (ex_same_input_ffs ! 1)"
    by (simp add: ex_same_input_ffs_def past_defs)
  show "mod_cells ex_same_input_module = ex_same_input_ffs"
    by (simp add: ex_same_input_module_def)
  have clock_run: "merge_past_ffs_clock 3 ex_same_input_module ex_same_input_ffs ex_clk True
                   = Some (Inr (ex_same_input_module, ex_same_input_ffs))"
    by (simp add: merge_past_ffs_clock_def numeral_3_eq_3 merge_iteration_def
        ex_same_input_ffs_def mk_past_ff_def getPort_def pub_def bind_err_def as_bit_def
        sort_and_unify_def process_chunk_def)
  show "merge_past_ffs_clock 3 ex_same_input_module ex_same_input_ffs ex_clk True
        = Some (Inr (ex_same_input_module, ex_same_input_ffs))"
    by (rule clock_run)
  have keys: "map_err ff_clock_key ex_same_input_ffs = Inr [(ex_clk, True), (ex_clk, True)]"
    by (simp add: ex_same_input_ffs_def ff_clock_key_def past_defs bind_err_def as_bit_def)
  have group: "map snd (filter (\<lambda>p. fst p = (ex_clk, True))
                          (zip [(ex_clk, True), (ex_clk, True)] ex_same_input_ffs))
               = ex_same_input_ffs"
    by (simp add: ex_same_input_ffs_def)
  show "merge_past_ffs 3 ex_same_input_module ex_same_input_ffs = Some (Inr ex_same_input_module)"
    by (simp add: merge_past_ffs_def keys group clock_run)
qed

end
